(* ===== verification/Prelude.thy ===== *)
theory Prelude
  imports Main "HOL-Library.Monad_Syntax"
begin

text \<open>
  Shared vocabulary of the development: the JavaScript and Immutable.js primitives that
  the TypeScript sources under \<open>src/app\<close> call (\<open>String.prototype.slice\<close>,
  \<open>List.get\<close>, \<open>Seq.skipUntil\<close>/\<open>takeUntil\<close>, lodash \<open>sum\<close> over a sparse array,
  \<open>String.prototype.startsWith\<close>), with their characteristic lemmas.  JavaScript numbers
  that may become negative are \<open>int\<close>; list positions are \<open>nat\<close>.  The collections
  \<open>js_simps\<close> (evaluation rules of the primitives) and \<open>wf_simps\<close> (facts about the
  well-formedness invariant of documents) carry the component proofs.
\<close>

named_theorems js_simps "evaluation rules of the JavaScript primitives"
named_theorems wf_simps "facts about well-formed documents"

section \<open>Slicing\<close>

text \<open>
  \<open>s.slice(b, e)\<close> (strings, arrays and Immutable lists alike): a negative index counts
  from the end, every index is clamped to \<open>[0, length]\<close>, and an end before the start
  gives the empty slice.
\<close>

definition js_idx :: "nat \<Rightarrow> int \<Rightarrow> nat" where
  "js_idx n i = (if i < 0 then nat (max 0 (int n + i)) else min (nat i) n)"

definition js_slice :: "'a list \<Rightarrow> int \<Rightarrow> int \<Rightarrow> 'a list" where
  "js_slice xs b e =
     (let n = length xs; b' = js_idx n b; e' = js_idx n e in take (e' - b') (drop b' xs))"

definition js_slice_from :: "'a list \<Rightarrow> int \<Rightarrow> 'a list" where
  "js_slice_from xs b = drop (js_idx (length xs) b) xs"

lemma js_idx_nonneg [js_simps]:
  "0 \<le> i \<Longrightarrow> js_idx n i = min (nat i) n"
  by (simp add: js_idx_def)

lemma js_idx_le [simp]: "js_idx n i \<le> n"
  by (auto simp: js_idx_def)

lemma js_slice_nat [js_simps]:
  assumes "0 \<le> b" "b \<le> e" "nat e \<le> length xs"
  shows "js_slice xs b e = take (nat e - nat b) (drop (nat b) xs)"
  using assms by (simp add: js_slice_def js_idx_def Let_def min_def)

lemma js_slice_from_nat [js_simps]:
  "0 \<le> b \<Longrightarrow> js_slice_from xs b = drop (nat b) xs"
  by (simp add: js_slice_from_def js_idx_def min_def)

lemma js_slice_zero_from [simp]:
  "js_slice xs 0 b @ js_slice_from xs b = xs"
  by (simp add: js_slice_def js_slice_from_def js_idx_def)

lemma length_js_slice [simp]:
  "length (js_slice xs b e) = js_idx (length xs) e - js_idx (length xs) b"
  by (simp add: js_slice_def Let_def min_absorb2 diff_le_mono)

lemma length_js_slice_from [simp]:
  "length (js_slice_from xs b) = length xs - js_idx (length xs) b"
  by (simp add: js_slice_from_def)

text \<open>
  Two lists of the same length are cut at the same places: the character list of a block
  is sliced alongside its text.
\<close>

lemma length_js_slice_eq:
  "length xs = length ys \<Longrightarrow> length (js_slice xs b e) = length (js_slice ys b e)"
  by simp

lemma length_js_slice_from_eq:
  "length xs = length ys \<Longrightarrow> length (js_slice_from xs b) = length (js_slice_from ys b)"
  by simp

lemma set_js_slice: "set (js_slice xs b e) \<subseteq> set xs"
  by (auto simp: js_slice_def Let_def dest: in_set_takeD in_set_dropD)

lemma set_js_slice_from: "set (js_slice_from xs b) \<subseteq> set xs"
  by (auto simp: js_slice_from_def dest: in_set_dropD)

section \<open>Immutable.js lists and sequences\<close>

text \<open>
  \<open>List.get(i)\<close>: a negative index counts from the end; an index outside the list
  yields \<open>undefined\<close>, here \<open>None\<close>.
\<close>

definition imm_get :: "'a list \<Rightarrow> int \<Rightarrow> 'a option" where
  "imm_get xs i =
     (let j = (if i < 0 then int (length xs) + i else i)
      in if 0 \<le> j \<and> j < int (length xs) then Some (xs ! nat j) else None)"

lemma imm_get_in_range [js_simps]:
  "0 \<le> i \<Longrightarrow> nat i < length xs \<Longrightarrow> imm_get xs i = Some (xs ! nat i)"
  by (auto simp: imm_get_def)

lemma imm_get_beyond [js_simps]:
  "int (length xs) \<le> i \<Longrightarrow> imm_get xs i = None"
  by (auto simp: imm_get_def)

text \<open>\<open>Seq.skipUntil(p)\<close> and \<open>Seq.takeUntil(p)\<close>.\<close>

definition skip_until :: "('a \<Rightarrow> bool) \<Rightarrow> 'a list \<Rightarrow> 'a list" where
  "skip_until p xs = dropWhile (\<lambda>x. \<not> p x) xs"

definition take_until :: "('a \<Rightarrow> bool) \<Rightarrow> 'a list \<Rightarrow> 'a list" where
  "take_until p xs = takeWhile (\<lambda>x. \<not> p x) xs"

lemma skip_until_simps [simp]:
  "skip_until p [] = []"
  "skip_until p (x # xs) = (if p x then x # xs else skip_until p xs)"
  by (simp_all add: skip_until_def)

lemma take_until_simps [simp]:
  "take_until p [] = []"
  "take_until p (x # xs) = (if p x then [] else x # take_until p xs)"
  by (simp_all add: take_until_def)

lemma take_until_skip_until:
  "\<exists>x \<in> set xs. p x \<Longrightarrow> take_until p (skip_until p xs) = []"
  by (induction xs) auto

lemma js_slice_empty [simp]: "js_slice xs 0 0 = []"
  by (simp add: js_slice_def)

lemma js_slice_from_zero [simp]: "js_slice_from xs 0 = xs"
  by (simp add: js_slice_from_def js_idx_def)

lemma skip_until_split:
  "\<forall>x \<in> set pre. \<not> p x \<Longrightarrow> p b \<Longrightarrow> skip_until p (pre @ b # post) = b # post"
  by (induction pre) auto

lemma skip_until_find:
  "find p xs = Some x \<Longrightarrow> \<exists>ys. skip_until p xs = x # ys"
  by (induction xs) (auto split: if_splits)

lemma set_skip_until: "set (skip_until p xs) \<subseteq> set xs"
  by (induction xs) auto

lemma set_take_until: "set (take_until p xs) \<subseteq> set xs"
  by (induction xs) auto

section \<open>Iteration with failure\<close>

text \<open>
  A \<open>forEach\<close> whose callback updates an accumulator and may throw: the first failure
  ends the loop.
\<close>

fun fold_option :: "('b \<Rightarrow> 'a \<Rightarrow> 'b option) \<Rightarrow> 'b \<Rightarrow> 'a list \<Rightarrow> 'b option" where
  "fold_option f b [] = Some b"
| "fold_option f b (x # xs) = f b x \<bind> (\<lambda>b'. fold_option f b' xs)"

lemma fold_option_append:
  "fold_option f b (xs @ ys) = fold_option f b xs \<bind> (\<lambda>b'. fold_option f b' ys)"
  by (induction xs arbitrary: b) simp_all

lemma fold_option_invariant:
  assumes "fold_option f b xs = Some b'" "P b"
    and "\<And>c x c'. x \<in> set xs \<Longrightarrow> P c \<Longrightarrow> f c x = Some c' \<Longrightarrow> P c'"
  shows "P b'"
  using assms by (induction xs arbitrary: b) (auto simp: bind_eq_Some_conv)

section \<open>Sparse counter arrays\<close>

text \<open>
  A JavaScript array that is only ever written at some indices and read through lodash
  \<open>sum(arr.slice(0, k))\<close>: holes are skipped by \<open>sum\<close>, so the array is a function
  from index to count that is 0 at every hole, and the read is the sum of the first
  \<open>k\<close> entries.
\<close>

type_synonym counter_array = "nat \<Rightarrow> nat"

fun prefix_sum :: "counter_array \<Rightarrow> nat \<Rightarrow> nat" where
  "prefix_sum a 0 = 0"
| "prefix_sum a (Suc k) = prefix_sum a k + a k"

definition bump :: "counter_array \<Rightarrow> nat \<Rightarrow> nat \<Rightarrow> counter_array" where
  "bump a i n = a(i := a i + n)"

lemma prefix_sum_zero [simp]: "prefix_sum (\<lambda>_. 0) k = 0"
  by (induction k) simp_all

lemma prefix_sum_bump [simp]:
  "prefix_sum (bump a i n) k = prefix_sum a k + (if i < k then n else 0)"
  by (induction k) (auto simp: bump_def)

lemma prefix_sum_mono: "k \<le> l \<Longrightarrow> prefix_sum a k \<le> prefix_sum a l"
  by (induction l) (auto simp: le_Suc_eq)

section \<open>Strings\<close>

text \<open>\<open>String.prototype.startsWith\<close>.\<close>

definition starts_with :: "string \<Rightarrow> string \<Rightarrow> bool" where
  "starts_with s p \<longleftrightarrow> take (length p) s = p"

text \<open>\<open>Array.prototype.join(delimiter)\<close> on strings.\<close>

fun js_join :: "'a list \<Rightarrow> 'a list list \<Rightarrow> 'a list" where
  "js_join d [] = []"
| "js_join d [x] = x"
| "js_join d (x # y # xs) = x @ d @ js_join d (y # xs)"

lemma starts_with_append [simp]: "starts_with (p @ s) p"
  by (simp add: starts_with_def)

lemma starts_with_Cons [simp]:
  "starts_with s (c # p) \<longleftrightarrow> (\<exists>s'. s = c # s' \<and> starts_with s' p)"
  by (cases s) (auto simp: starts_with_def)

lemma starts_with_Nil [simp]: "starts_with s []"
  by (simp add: starts_with_def)

end
