(* ===== verification/Draft_Model.thy ===== *)
theory Draft_Model
  imports Prelude
begin

text \<open>
  The host document container (spec section 6): draft-js's \<open>ContentState\<close>,
  \<open>SelectionState\<close> and \<open>EditorState\<close>, and the \<open>Modifier\<close> transforms the sources call.
  draft-js is a library, not code of this repository, so this theory is modelled from the
  spec's interface and from the documented behaviour of those calls; every operation that
  would throw in draft-js (a key that names no block, \<open>insertText\<close> on an expanded
  range) returns \<open>None\<close>.  Documents are values: reference equality (\<open>===\<close>) on
  contents and blocks is modelled as structural equality.  The invariant \<open>wf_content\<close>
  (distinct keys, one character record per character, entity references that resolve)
  is kept by every transform.
\<close>

section \<open>Data\<close>

type_synonym block_key = nat
type_synonym entity_key = nat
type_synonym style = "string list" \<comment> \<open>an Immutable \<open>OrderedSet<string>\<close>\<close>

datatype block_type =
    Unstyled | HeaderOne | HeaderTwo | HeaderThree | HeaderFour | HeaderFive | HeaderSix
  | Blockquote | UnorderedListItem | OrderedListItem | OtherBlockType string

datatype mutability = Mutable | Immutable | Segmented

record entity =
  ent_type :: string
  ent_mutability :: mutability

record char_meta =
  cm_style :: style
  cm_entity :: "entity_key option"

record block =
  b_key :: block_key
  b_type :: block_type
  b_text :: string
  b_chars :: "char_meta list"

record selection =
  anchor_key :: block_key
  anchor_offset :: int
  focus_key :: block_key
  focus_offset :: int
  is_backward :: bool

record content =
  blocks :: "block list"
  entity_map :: "entity list"
  sel_after :: selection

datatype change_type =
    InsertCharacters | BackspaceCharacter | DeleteCharacter | RemoveRange | SplitBlock
  | ChangeBlockType | ApplyEntity | OtherChange string

record editor_state =
  current_content :: content
  es_selection :: selection
  last_change :: "change_type option"
  allow_undo :: bool
  undo_stack :: "content list"

section \<open>Selections\<close>

definition collapsed_at :: "block_key \<Rightarrow> int \<Rightarrow> selection" where
  "collapsed_at k off =
     \<lparr>anchor_key = k, anchor_offset = off, focus_key = k, focus_offset = off, is_backward = False\<rparr>"

definition is_collapsed :: "selection \<Rightarrow> bool" where
  "is_collapsed s \<longleftrightarrow> anchor_key s = focus_key s \<and> anchor_offset s = focus_offset s"

definition start_key :: "selection \<Rightarrow> block_key" where
  "start_key s = (if is_backward s then focus_key s else anchor_key s)"

definition start_offset :: "selection \<Rightarrow> int" where
  "start_offset s = (if is_backward s then focus_offset s else anchor_offset s)"

definition end_key :: "selection \<Rightarrow> block_key" where
  "end_key s = (if is_backward s then anchor_key s else focus_key s)"

definition end_offset :: "selection \<Rightarrow> int" where
  "end_offset s = (if is_backward s then anchor_offset s else focus_offset s)"

lemmas selection_defs =
  start_key_def start_offset_def end_key_def end_offset_def is_collapsed_def

lemma collapsed_at_simps [simp]:
  "anchor_key (collapsed_at k off) = k" "focus_key (collapsed_at k off) = k"
  "anchor_offset (collapsed_at k off) = off" "focus_offset (collapsed_at k off) = off"
  "is_backward (collapsed_at k off) = False"
  by (simp_all add: collapsed_at_def)

text \<open>
  \<open>SelectionState.hasEdgeWithin(blockKey, start, end)\<close>: with both ends in the block,
  whether the start or the end offset lies in \<open>[start, end]\<close>; otherwise whether the end
  that lies in the block does.
\<close>

definition sel_has_edge_within :: "selection \<Rightarrow> block_key \<Rightarrow> int \<Rightarrow> int \<Rightarrow> bool" where
  "sel_has_edge_within s k st en =
     (if anchor_key s = focus_key s \<and> anchor_key s = k
      then st \<le> start_offset s \<and> start_offset s \<le> en \<or> st \<le> end_offset s \<and> end_offset s \<le> en
      else if k \<noteq> anchor_key s \<and> k \<noteq> focus_key s then False
      else let off = (if k = anchor_key s then anchor_offset s else focus_offset s)
           in st \<le> off \<and> off \<le> en)"

section \<open>Reading a document\<close>

definition block_keys :: "content \<Rightarrow> block_key list" where
  "block_keys c = map b_key (blocks c)"

definition get_block_for_key :: "content \<Rightarrow> block_key \<Rightarrow> block option" where
  "get_block_for_key c k = find (\<lambda>b. b_key b = k) (blocks c)"

fun block_after :: "block list \<Rightarrow> block_key \<Rightarrow> block option" where
  "block_after (b # b' # bs) k = (if b_key b = k then Some b' else block_after (b' # bs) k)"
| "block_after _ k = None"

definition get_block_after :: "content \<Rightarrow> block_key \<Rightarrow> block option" where
  "get_block_after c k = block_after (blocks c) k"

text \<open>
  The keys a range transform visits: \<open>skipUntil(start).takeUntil(end)\<close> and then the end
  key itself, as draft-js's \<open>modifyBlockForContentState\<close> and
  \<open>removeRangeFromContentState\<close> compute them.
\<close>

definition keys_in_range :: "content \<Rightarrow> block_key \<Rightarrow> block_key \<Rightarrow> block_key list" where
  "keys_in_range c sk ek = take_until (\<lambda>k. k = ek) (skip_until (\<lambda>k. k = sk) (block_keys c)) @ [ek]"

definition block_text :: "content \<Rightarrow> block_key \<Rightarrow> string option" where
  "block_text c k = map_option b_text (get_block_for_key c k)"

definition has_keys :: "content \<Rightarrow> selection \<Rightarrow> bool" where
  "has_keys c s \<longleftrightarrow>
     get_block_for_key c (start_key s) \<noteq> None \<and> get_block_for_key c (end_key s) \<noteq> None"

section \<open>Well-formedness\<close>

definition wf_meta :: "nat \<Rightarrow> char_meta \<Rightarrow> bool" where
  "wf_meta n m \<longleftrightarrow> (case cm_entity m of None \<Rightarrow> True | Some k \<Rightarrow> k < n)"

definition wf_block :: "nat \<Rightarrow> block \<Rightarrow> bool" where
  "wf_block n b \<longleftrightarrow> length (b_chars b) = length (b_text b) \<and> list_all (wf_meta n) (b_chars b)"

definition wf_content :: "content \<Rightarrow> bool" where
  "wf_content c \<longleftrightarrow>
     distinct (block_keys c) \<and> list_all (wf_block (length (entity_map c))) (blocks c)"

section \<open>Transforms (draft-js \<open>Modifier\<close>)\<close>

text \<open>
  A range transform applies \<open>f\<close> to every block of the range, telling it the slice of
  its characters that lies in the range; the content's \<open>selectionAfter\<close> becomes the
  range.  It fails when an end of the range names no block.
\<close>

definition slice_bounds :: "selection \<Rightarrow> block \<Rightarrow> int \<times> int" where
  "slice_bounds s b =
     ((if b_key b = start_key s then start_offset s else 0),
      (if b_key b = end_key s then end_offset s else int (length (b_text b))))"

definition modify_blocks :: "(int \<times> int \<Rightarrow> block \<Rightarrow> block) \<Rightarrow> content \<Rightarrow> selection \<Rightarrow> content option" where
  "modify_blocks f c s =
     (if has_keys c s
      then Some (c\<lparr>blocks := map (\<lambda>b. if b_key b \<in> set (keys_in_range c (start_key s) (end_key s))
                                       then f (slice_bounds s b) b else b) (blocks c),
                   sel_after := s\<rparr>)
      else None)"

definition map_chars_in :: "(char_meta \<Rightarrow> char_meta) \<Rightarrow> int \<times> int \<Rightarrow> char_meta list \<Rightarrow> char_meta list" where
  "map_chars_in f r cs =
     map (\<lambda>(i, m). if fst r \<le> int i \<and> int i < snd r then f m else m) (zip [0..<length cs] cs)"

definition modify_chars :: "(char_meta \<Rightarrow> char_meta) \<Rightarrow> content \<Rightarrow> selection \<Rightarrow> content option" where
  "modify_chars f = modify_blocks (\<lambda>r b. b\<lparr>b_chars := map_chars_in f r (b_chars b)\<rparr>)"

definition set_block_type :: "content \<Rightarrow> selection \<Rightarrow> block_type \<Rightarrow> content option" where
  "set_block_type c s t = modify_blocks (\<lambda>_ b. b\<lparr>b_type := t\<rparr>) c s"

definition remove_inline_style :: "content \<Rightarrow> selection \<Rightarrow> string \<Rightarrow> content option" where
  "remove_inline_style c s st = modify_chars (\<lambda>m. m\<lparr>cm_style := removeAll st (cm_style m)\<rparr>) c s"

definition apply_entity :: "content \<Rightarrow> selection \<Rightarrow> entity_key option \<Rightarrow> content option" where
  "apply_entity c s e = modify_chars (\<lambda>m. m\<lparr>cm_entity := e\<rparr>) c s"

text \<open>
  \<open>removeRangeFromContentState\<close>: the start block keeps the text before the start
  offset and receives the text of the end block after the end offset; the blocks after the
  start block up to the end block disappear.
\<close>

definition join_blocks :: "block \<Rightarrow> block \<Rightarrow> int \<Rightarrow> int \<Rightarrow> block" where
  "join_blocks sb eb so eo =
     sb\<lparr>b_text := js_slice (b_text sb) 0 so @ js_slice_from (b_text eb) eo,
        b_chars := js_slice (b_chars sb) 0 so @ js_slice_from (b_chars eb) eo\<rparr>"

definition remove_range :: "content \<Rightarrow> selection \<Rightarrow> content option" where
  "remove_range c s =
     (case (get_block_for_key c (start_key s), get_block_for_key c (end_key s)) of
        (Some sb, Some eb) \<Rightarrow>
          Some (if is_collapsed s then c\<lparr>sel_after := s\<rparr>
                else let ks = keys_in_range c (start_key s) (end_key s);
                         nb = join_blocks sb eb (start_offset s) (end_offset s)
                     in c\<lparr>blocks := map (\<lambda>b. if b_key b = start_key s then nb else b)
                                        (filter (\<lambda>b. b_key b = start_key s \<or> b_key b \<notin> set ks) (blocks c)),
                          sel_after := collapsed_at (start_key s) (start_offset s)\<rparr>)
      | _ \<Rightarrow> None)"

text \<open>\<open>insertTextIntoContentState\<close>: every inserted character gets the same metadata.\<close>

definition splice_block :: "block \<Rightarrow> int \<Rightarrow> string \<Rightarrow> char_meta list \<Rightarrow> block" where
  "splice_block b off txt ms =
     b\<lparr>b_text := js_slice (b_text b) 0 off @ txt @ js_slice_from (b_text b) off,
       b_chars := js_slice (b_chars b) 0 off @ ms @ js_slice_from (b_chars b) off\<rparr>"

definition replace_block :: "block \<Rightarrow> block list \<Rightarrow> block list" where
  "replace_block nb bs = map (\<lambda>x. if b_key x = b_key nb then nb else x) bs"

definition insert_text_at :: "content \<Rightarrow> selection \<Rightarrow> string \<Rightarrow> char_meta \<Rightarrow> content option" where
  "insert_text_at c s txt m =
     (if txt = [] then Some c
      else case get_block_for_key c (start_key s) of
        None \<Rightarrow> None
      | Some b \<Rightarrow>
          let off = start_offset s; n = int (length txt)
          in Some (c\<lparr>blocks := replace_block (splice_block b off txt (replicate (length txt) m)) (blocks c),
                     sel_after := s\<lparr>anchor_offset := off + n, focus_offset := off + n\<rparr>\<rparr>))"

definition replace_text :: "content \<Rightarrow> selection \<Rightarrow> string \<Rightarrow> style \<Rightarrow> content option" where
  "replace_text c s txt st =
     do { c1 \<leftarrow> remove_range c s;
          insert_text_at c1 (sel_after c1) txt \<lparr>cm_style = st, cm_entity = None\<rparr> }"

text \<open>\<open>Modifier.insertText\<close> asserts that its target range is collapsed.\<close>

definition insert_text :: "content \<Rightarrow> selection \<Rightarrow> string \<Rightarrow> content option" where
  "insert_text c s txt = (if is_collapsed s then replace_text c s txt [] else None)"

text \<open>\<open>contentState.createEntity\<close>: the new entity's key is the next free one.\<close>

definition create_entity :: "content \<Rightarrow> entity \<Rightarrow> content \<times> entity_key" where
  "create_entity c e = (c\<lparr>entity_map := entity_map c @ [e]\<rparr>, length (entity_map c))"

section \<open>Entities\<close>

text \<open>
  \<open>contentState.getEntity(key)\<close> fails on a key it does not know; entities are created
  with consecutive keys, so the key is an index of the entity map.
\<close>

definition get_entity :: "content \<Rightarrow> entity_key \<Rightarrow> entity option" where
  "get_entity c k = (if k < length (entity_map c) then Some (entity_map c ! k) else None)"

text \<open>
  \<open>findRangesImmutable\<close>: the maximal runs of equal values of a list, as (value, start,
  end) with \<open>end\<close> exclusive.
\<close>

function runs_from :: "'a list \<Rightarrow> nat \<Rightarrow> ('a \<times> nat \<times> nat) list" where
  "runs_from [] i = []"
| "runs_from (x # xs) i =
     (let n = length (takeWhile (\<lambda>y. y = x) xs)
      in (x, i, i + Suc n) # runs_from (drop n xs) (i + Suc n))"
  by pat_completeness auto
termination
  by (relation "measure (\<lambda>(xs, i). length xs)") auto

text \<open>
  \<open>block.findEntityRanges(filter, callback)\<close>: the runs of equal entity references of
  the block's characters, each tested once by the filter on its entity reference.
\<close>

definition entity_runs :: "block \<Rightarrow> (entity_key option \<times> nat \<times> nat) list" where
  "entity_runs b = runs_from (map cm_entity (b_chars b)) 0"

section \<open>Editor state\<close>

text \<open>
  \<open>EditorState.push\<close> records an undoable step unless undo is disabled, and leaves the
  state alone when the content did not change; the selection becomes the content's
  \<open>selectionAfter\<close>.
\<close>

definition push :: "editor_state \<Rightarrow> content \<Rightarrow> change_type \<Rightarrow> editor_state" where
  "push es c ct =
     (if c = current_content es then es
      else es\<lparr>current_content := c, es_selection := sel_after c, last_change := Some ct,
              undo_stack := (if allow_undo es then current_content es # undo_stack es
                             else undo_stack es)\<rparr>)"

definition force_selection :: "editor_state \<Rightarrow> selection \<Rightarrow> editor_state" where
  "force_selection es s = es\<lparr>es_selection := s\<rparr>"

section \<open>The transforms keep documents well-formed\<close>

lemma wf_meta_mono: "wf_meta n m \<Longrightarrow> n \<le> n' \<Longrightarrow> wf_meta n' m"
  by (auto simp: wf_meta_def split: option.splits)

lemma wf_block_mono: "wf_block n b \<Longrightarrow> n \<le> n' \<Longrightarrow> wf_block n' b"
  by (auto simp: wf_block_def list_all_iff intro: wf_meta_mono)

lemma get_block_for_key_Some:
  "get_block_for_key c k = Some b \<Longrightarrow> b \<in> set (blocks c) \<and> b_key b = k"
  by (auto simp: get_block_for_key_def dest: find_Some_iff [THEN iffD1] simp: in_set_conv_nth)

lemma get_block_wf [wf_simps]:
  "get_block_for_key c k = Some b \<Longrightarrow> wf_content c \<Longrightarrow> wf_block (length (entity_map c)) b"
  using get_block_for_key_Some [of c k b] by (simp add: wf_content_def list_all_iff)

lemma map_b_key_map [wf_simps]:
  "(\<And>b. b \<in> set xs \<Longrightarrow> b_key (f b) = b_key b) \<Longrightarrow> map b_key (map f xs) = map b_key xs"
  by (induction xs) auto

lemma list_all_map_if:
  "P y \<Longrightarrow> list_all P xs \<Longrightarrow> list_all P (map (\<lambda>x. if Q x then y else x) xs)"
  by (induction xs) auto

lemma b_key_splice_block [simp]: "b_key (splice_block b off txt ms) = b_key b"
  by (simp add: splice_block_def)

lemma b_key_join_blocks [simp]: "b_key (join_blocks sb eb so eo) = b_key sb"
  by (simp add: join_blocks_def)

lemma map_b_key_replace_block [simp]: "map b_key (replace_block nb bs) = map b_key bs"
  by (simp add: replace_block_def comp_def)

lemma wf_replace_block [wf_simps]:
  "wf_block n nb \<Longrightarrow> list_all (wf_block n) bs \<Longrightarrow> list_all (wf_block n) (replace_block nb bs)"
  unfolding replace_block_def by (rule list_all_map_if)

lemma wf_splice_block [wf_simps]:
  assumes "wf_block n b" "list_all (wf_meta n) ms" "length ms = length txt"
  shows "wf_block n (splice_block b off txt ms)"
proof -
  have "list_all (wf_meta n) (js_slice (b_chars b) 0 off)"
    and "list_all (wf_meta n) (js_slice_from (b_chars b) off)"
    using assms(1) set_js_slice [of "b_chars b" 0 off] set_js_slice_from [of "b_chars b" off]
    by (auto simp: wf_block_def list_all_iff)
  with assms show ?thesis by (simp add: wf_block_def splice_block_def)
qed

lemma wf_join_blocks [wf_simps]:
  assumes "wf_block n sb" "wf_block n eb"
  shows "wf_block n (join_blocks sb eb so eo)"
proof -
  have "list_all (wf_meta n) (js_slice (b_chars sb) 0 so)"
    and "list_all (wf_meta n) (js_slice_from (b_chars eb) eo)"
    using assms set_js_slice [of "b_chars sb" 0 so] set_js_slice_from [of "b_chars eb" eo]
    by (auto simp: wf_block_def list_all_iff)
  with assms show ?thesis by (simp add: wf_block_def join_blocks_def)
qed

lemma length_map_chars_in [simp]: "length (map_chars_in f r cs) = length cs"
  by (simp add: map_chars_in_def)

lemma nth_map_chars_in:
  "i < length cs \<Longrightarrow>
   map_chars_in f r cs ! i = (if fst r \<le> int i \<and> int i < snd r then f (cs ! i) else cs ! i)"
  by (simp add: map_chars_in_def)

lemma wf_map_chars_in [wf_simps]:
  assumes "list_all (wf_meta n) cs" "\<And>m. wf_meta n m \<Longrightarrow> wf_meta n (f m)"
  shows "list_all (wf_meta n) (map_chars_in f r cs)"
  using assms by (auto simp: list_all_iff map_chars_in_def set_zip)

lemma modify_blocks_entity_map [simp]:
  "modify_blocks f c s = Some c' \<Longrightarrow> entity_map c' = entity_map c"
  by (auto simp: modify_blocks_def split: if_splits)

lemma modify_blocks_wf [wf_simps]:
  assumes "modify_blocks f c s = Some c'" "wf_content c"
    and "\<And>r b. b_key (f r b) = b_key b"
    and "\<And>r b. wf_block (length (entity_map c)) b \<Longrightarrow> wf_block (length (entity_map c)) (f r b)"
  shows "wf_content c'"
proof -
  let ?n = "length (entity_map c)"
  have keys: "map b_key (blocks c') = map b_key (blocks c)"
    using assms(1) by (auto simp: modify_blocks_def assms(3) split: if_splits)
  have "wf_block ?n b" if b: "b \<in> set (blocks c')" for b
  proof -
    obtain b0 where b0: "b0 \<in> set (blocks c)" and "b = b0 \<or> b = f (slice_bounds s b0) b0"
      using assms(1) b by (auto simp: modify_blocks_def split: if_splits)
    moreover have "wf_block ?n b0"
      using b0 assms(2) by (simp add: wf_content_def list_all_iff)
    ultimately show ?thesis using assms(4) by blast
  qed
  with keys assms(1,2) show ?thesis
    by (auto simp: wf_content_def block_keys_def list_all_iff)
qed

lemma modify_chars_wf [wf_simps]:
  assumes "modify_chars f c s = Some c'" "wf_content c"
    and "\<And>m. wf_meta (length (entity_map c)) m \<Longrightarrow> wf_meta (length (entity_map c)) (f m)"
  shows "wf_content c'"
  using assms(1,2) unfolding modify_chars_def
  by (rule modify_blocks_wf) (auto simp: wf_block_def intro: wf_map_chars_in assms(3))

lemma set_block_type_wf [wf_simps]:
  "set_block_type c s t = Some c' \<Longrightarrow> wf_content c \<Longrightarrow> wf_content c'"
  unfolding set_block_type_def by (erule modify_blocks_wf) (auto simp: wf_block_def)

lemma remove_inline_style_wf [wf_simps]:
  "remove_inline_style c s st = Some c' \<Longrightarrow> wf_content c \<Longrightarrow> wf_content c'"
  unfolding remove_inline_style_def by (erule modify_chars_wf) (auto simp: wf_meta_def)

lemma apply_entity_wf [wf_simps]:
  "apply_entity c s e = Some c' \<Longrightarrow> wf_content c \<Longrightarrow> pred_option (\<lambda>k. k < length (entity_map c)) e
   \<Longrightarrow> wf_content c'"
  unfolding apply_entity_def by (erule modify_chars_wf) (auto simp: wf_meta_def split: option.splits)

lemma remove_range_Some:
  assumes "remove_range c s = Some c'"
  obtains sb eb where "get_block_for_key c (start_key s) = Some sb"
    and "get_block_for_key c (end_key s) = Some eb"
    and "c' = (if is_collapsed s then c\<lparr>sel_after := s\<rparr>
               else c\<lparr>blocks := map (\<lambda>b. if b_key b = start_key s
                                          then join_blocks sb eb (start_offset s) (end_offset s) else b)
                          (filter (\<lambda>b. b_key b = start_key s
                                    \<or> b_key b \<notin> set (keys_in_range c (start_key s) (end_key s))) (blocks c)),
                       sel_after := collapsed_at (start_key s) (start_offset s)\<rparr>)"
  using assms by (auto simp: remove_range_def Let_def split: option.splits)

lemma remove_range_entity_map [simp]:
  "remove_range c s = Some c' \<Longrightarrow> entity_map c' = entity_map c"
  by (erule remove_range_Some) simp

lemma remove_range_wf [wf_simps]:
  assumes "remove_range c s = Some c'" "wf_content c"
  shows "wf_content c'"
proof -
  let ?n = "length (entity_map c)"
  let ?P = "\<lambda>b. b_key b = start_key s \<or> b_key b \<notin> set (keys_in_range c (start_key s) (end_key s))"
  obtain sb eb where sb: "get_block_for_key c (start_key s) = Some sb"
    and eb: "get_block_for_key c (end_key s) = Some eb"
    and c': "c' = (if is_collapsed s then c\<lparr>sel_after := s\<rparr>
               else c\<lparr>blocks := map (\<lambda>b. if b_key b = start_key s
                                          then join_blocks sb eb (start_offset s) (end_offset s) else b)
                          (filter ?P (blocks c)),
                       sel_after := collapsed_at (start_key s) (start_offset s)\<rparr>)"
    using assms(1) by (rule remove_range_Some)
  show ?thesis
  proof (cases "is_collapsed s")
    case True
    with assms(2) c' show ?thesis by (simp add: wf_content_def block_keys_def)
  next
    case False
    let ?nb = "join_blocks sb eb (start_offset s) (end_offset s)"
    have ksb: "b_key ?nb = start_key s"
      using get_block_for_key_Some [OF sb] by simp
    have "block_keys c' = map b_key (filter ?P (blocks c))"
      using False ksb unfolding c' block_keys_def by (simp del: map_map add: map_b_key_map)
    then have dist: "distinct (block_keys c')"
      using assms(2) by (simp add: wf_content_def block_keys_def distinct_map_filter)
    have "wf_block ?n ?nb"
      using get_block_wf [OF sb assms(2)] get_block_wf [OF eb assms(2)] by (rule wf_join_blocks)
    moreover have "list_all (wf_block ?n) (filter ?P (blocks c))"
      using assms(2) by (simp add: wf_content_def list_all_iff)
    ultimately have "list_all (wf_block ?n) (blocks c')"
      using False unfolding c' by (simp add: list_all_map_if)
    with dist False show ?thesis
      by (simp add: wf_content_def c')
  qed
qed

lemma insert_text_at_Nil [simp]: "insert_text_at c s [] m = Some c"
  unfolding insert_text_at_def by (rule if_P) (rule refl)

lemma insert_text_at_Some:
  assumes "insert_text_at c s txt m = Some c'" "txt \<noteq> []"
  obtains b where "get_block_for_key c (start_key s) = Some b"
    and "c' = c\<lparr>blocks := replace_block (splice_block b (start_offset s) txt (replicate (length txt) m))
                                         (blocks c),
               sel_after := s\<lparr>anchor_offset := start_offset s + int (length txt),
                              focus_offset := start_offset s + int (length txt)\<rparr>\<rparr>"
  using assms by (cases "get_block_for_key c (start_key s)") (simp_all add: insert_text_at_def Let_def)

lemma insert_text_at_entity_map [simp]:
  "insert_text_at c s txt m = Some c' \<Longrightarrow> entity_map c' = entity_map c"
  by (cases "txt = []") (auto elim: insert_text_at_Some)

lemma insert_text_at_wf [wf_simps]:
  assumes "insert_text_at c s txt m = Some c'" "wf_content c" "wf_meta (length (entity_map c)) m"
  shows "wf_content c'"
proof (cases "txt = []")
  case True
  with assms show ?thesis by simp
next
  case False
  let ?n = "length (entity_map c)"
  obtain b where b: "get_block_for_key c (start_key s) = Some b"
    and c': "c' = c\<lparr>blocks := replace_block (splice_block b (start_offset s) txt (replicate (length txt) m))
                                         (blocks c),
               sel_after := s\<lparr>anchor_offset := start_offset s + int (length txt),
                              focus_offset := start_offset s + int (length txt)\<rparr>\<rparr>"
    using assms(1) False by (rule insert_text_at_Some)
  have "wf_block ?n (splice_block b (start_offset s) txt (replicate (length txt) m))"
    using get_block_wf [OF b assms(2)] assms(3) by (intro wf_splice_block) (simp_all add: list_all_iff)
  with assms(2) show ?thesis
    by (simp add: c' wf_content_def block_keys_def wf_replace_block)
qed

lemma replace_text_entity_map [simp]:
  "replace_text c s txt st = Some c' \<Longrightarrow> entity_map c' = entity_map c"
  by (auto simp: replace_text_def bind_eq_Some_conv)

lemma replace_text_wf [wf_simps]:
  "replace_text c s txt st = Some c' \<Longrightarrow> wf_content c \<Longrightarrow> wf_content c'"
  by (auto simp: replace_text_def bind_eq_Some_conv wf_meta_def intro: insert_text_at_wf remove_range_wf)

lemma insert_text_wf [wf_simps]:
  "insert_text c s txt = Some c' \<Longrightarrow> wf_content c \<Longrightarrow> wf_content c'"
  by (auto simp: insert_text_def split: if_splits intro: replace_text_wf)

lemma find_replace_block:
  "P nb \<Longrightarrow> (\<And>x. P x \<longleftrightarrow> b_key x = b_key nb) \<Longrightarrow>
   find P (replace_block nb bs) = (if \<exists>x \<in> set bs. P x then Some nb else None)"
  by (induction bs) (auto simp: replace_block_def)

lemma get_block_replace_block [simp]:
  "b_key nb = k \<Longrightarrow> get_block_for_key c k \<noteq> None \<Longrightarrow>
   get_block_for_key (c\<lparr>blocks := replace_block nb (blocks c)\<rparr>) k = Some nb"
  by (auto simp: get_block_for_key_def find_replace_block find_None_iff)

lemma create_entity_wf [wf_simps]:
  "wf_content c \<Longrightarrow> wf_content (fst (create_entity c e))"
  by (auto simp: create_entity_def wf_content_def block_keys_def list_all_iff intro: wf_block_mono)

lemma get_block_sel_after [simp]:
  "get_block_for_key (c\<lparr>sel_after := s\<rparr>) k = get_block_for_key c k"
  by (simp add: get_block_for_key_def)

lemma remove_range_collapsed:
  "get_block_for_key c k = Some b \<Longrightarrow>
   remove_range c (collapsed_at k off) = Some (c\<lparr>sel_after := collapsed_at k off\<rparr>)"
  by (simp add: remove_range_def selection_defs)

text \<open>Replacing the empty range at offset \<open>p\<close> of a block inserts the text there.\<close>

lemma replace_text_collapsed:
  assumes "block_text c k = Some w" "0 \<le> p" "nat p \<le> length w"
  shows "\<exists>c'. replace_text c (collapsed_at k p) txt st = Some c'
              \<and> block_text c' k = Some (take (nat p) w @ txt @ drop (nat p) w)
              \<and> entity_map c' = entity_map c"
proof -
  obtain b where b: "get_block_for_key c k = Some b" and w: "w = b_text b"
    using assms(1) by (auto simp: block_text_def)
  have kb: "b_key b = k"
    using get_block_for_key_Some [OF b] by simp
  let ?c1 = "c\<lparr>sel_after := collapsed_at k p\<rparr>"
  let ?m = "\<lparr>cm_style = st, cm_entity = None\<rparr>"
  have rr: "replace_text c (collapsed_at k p) txt st = insert_text_at ?c1 (collapsed_at k p) txt ?m"
    using b by (simp add: replace_text_def remove_range_collapsed)
  show ?thesis
  proof (cases "txt = []")
    case True
    with assms(1) rr show ?thesis by (simp add: block_text_def)
  next
    case False
    let ?nb = "splice_block b p txt (replicate (length txt) ?m)"
    have ins: "insert_text_at ?c1 (collapsed_at k p) txt ?m
               = Some (?c1\<lparr>blocks := replace_block ?nb (blocks ?c1),
                      sel_after := (collapsed_at k p)\<lparr>anchor_offset := p + int (length txt),
                                     focus_offset := p + int (length txt)\<rparr>\<rparr>)"
      using False b by (simp add: insert_text_at_def selection_defs Let_def)
    have "b_text ?nb = take (nat p) w @ txt @ drop (nat p) w"
      using assms(2,3) w by (simp add: splice_block_def js_slice_nat js_slice_from_nat)
    moreover have "b_key ?nb = k" using kb by simp
    ultimately show ?thesis
      using rr ins b kb by (simp add: block_text_def)
  qed
qed

section \<open>Single-block edits\<close>

text \<open>
  A transform whose range lies in one block of a document with distinct keys rewrites that
  block alone.
\<close>

lemma distinct_key_eq:
  "distinct (map b_key bs) \<Longrightarrow> x \<in> set bs \<Longrightarrow> y \<in> set bs \<Longrightarrow> b_key x = b_key y \<Longrightarrow> x = y"
  by (metis distinct_map inj_on_eq_iff)

lemma get_block_key_in:
  "get_block_for_key c k = Some b \<Longrightarrow> k \<in> set (block_keys c)"
  by (auto simp: block_keys_def dest: get_block_for_key_Some)

lemma keys_in_range_same:
  "k \<in> set (block_keys c) \<Longrightarrow> keys_in_range c k k = [k]"
  by (simp add: keys_in_range_def take_until_skip_until)

lemma map_if_key_replace_block:
  assumes "distinct (map b_key bs)" "b \<in> set bs" "b_key b = k" "b_key (g b) = k"
  shows "map (\<lambda>x. if b_key x = k then g x else x) bs = replace_block (g b) bs"
  unfolding replace_block_def
proof (intro map_cong refl)
  fix x assume x: "x \<in> set bs"
  show "(if b_key x = k then g x else x) = (if b_key x = b_key (g b) then g b else x)"
    using distinct_key_eq [OF assms(1) x assms(2)] assms(3,4) by auto
qed

lemma replace_block_self:
  "distinct (map b_key bs) \<Longrightarrow> b \<in> set bs \<Longrightarrow> replace_block b bs = bs"
  unfolding replace_block_def by (rule map_idI) (metis distinct_key_eq)

lemma modify_blocks_block:
  assumes "get_block_for_key c k = Some b" "distinct (block_keys c)"
    and "anchor_key s = k" "focus_key s = k" "\<And>r x. b_key (f r x) = b_key x"
  shows "modify_blocks f c s
         = Some (c\<lparr>blocks := replace_block (f (slice_bounds s b) b) (blocks c), sel_after := s\<rparr>)"
proof -
  have k: "start_key s = k" "end_key s = k" using assms(3,4) by (simp_all add: selection_defs)
  have b: "b \<in> set (blocks c)" "b_key b = k" using get_block_for_key_Some [OF assms(1)] by auto
  have "map (\<lambda>x. if b_key x = k then f (slice_bounds s x) x else x) (blocks c)
        = replace_block (f (slice_bounds s b) b) (blocks c)"
    using assms(2,5) b by (intro map_if_key_replace_block) (simp_all add: block_keys_def)
  then show ?thesis
    using assms(1) k keys_in_range_same [OF get_block_key_in [OF assms(1)]]
    by (simp add: modify_blocks_def has_keys_def)
qed

lemma replace_block_replace_block [simp]:
  "b_key nb = b_key nb' \<Longrightarrow> replace_block nb (replace_block nb' bs) = replace_block nb bs"
  by (induction bs) (auto simp: replace_block_def)

lemma join_blocks_same [simp]: "join_blocks b b i i = b"
  by (simp add: join_blocks_def)

lemma splice_block_Nil [simp]: "splice_block b i [] [] = b"
  by (simp add: splice_block_def)

lemma insert_text_at_block:
  assumes "get_block_for_key c k = Some b" "txt \<noteq> []"
  shows "insert_text_at c (collapsed_at k p) txt m
         = Some (c\<lparr>blocks := replace_block (splice_block b p txt (replicate (length txt) m)) (blocks c),
                   sel_after := collapsed_at k (p + int (length txt))\<rparr>)"
  using assms by (simp add: insert_text_at_def Let_def selection_defs collapsed_at_def)

lemma map_chars_in_all:
  "map_chars_in f (0, int (length cs)) cs = map f cs"
  by (rule nth_equalityI) (simp_all add: nth_map_chars_in)

lemma block_keys_replace_block [simp]:
  "block_keys (c\<lparr>blocks := replace_block nb (blocks c), sel_after := s\<rparr>) = block_keys c"
  by (simp add: block_keys_def)

lemma get_block_replace_block_sel [simp]:
  "b_key nb = k \<Longrightarrow> get_block_for_key c k \<noteq> None \<Longrightarrow>
   get_block_for_key (c\<lparr>blocks := replace_block nb (blocks c), sel_after := s\<rparr>) k = Some nb"
  using get_block_replace_block [of nb k c] by (simp add: get_block_for_key_def)

lemma find_key_split:
  "distinct (map b_key (pre @ b # post)) \<Longrightarrow> find (\<lambda>x. b_key x = b_key b) (pre @ b # post) = Some b"
  by (induction pre) auto

lemma replace_block_notin:
  "b_key nb \<notin> b_key ` set bs \<Longrightarrow> replace_block nb bs = bs"
  by (induction bs) (auto simp: replace_block_def)

lemma replace_block_split:
  "distinct (map b_key (pre @ b # post)) \<Longrightarrow> b_key nb = b_key b \<Longrightarrow>
   replace_block nb (pre @ b # post) = pre @ nb # post"
proof (induction pre)
  case Nil
  then show ?case using replace_block_notin [of nb post] by (simp add: replace_block_def)
next
  case (Cons x pre)
  then show ?case by (simp add: replace_block_def)
qed

lemma block_after_split:
  "b_key b \<notin> b_key ` set pre \<Longrightarrow>
   block_after (pre @ b # post) (b_key b) = (case post of [] \<Rightarrow> None | p # _ \<Rightarrow> Some p)"
proof (induction pre)
  case Nil
  then show ?case by (cases post) simp_all
next
  case (Cons x pre)
  then show ?case by (cases pre) (simp_all split: list.split)
qed

lemma join_blocks_drop:
  "p \<le> length (b_text b) \<Longrightarrow> p \<le> length (b_chars b) \<Longrightarrow>
   join_blocks b b 0 (int p) = b\<lparr>b_text := drop p (b_text b), b_chars := drop p (b_chars b)\<rparr>"
  by (simp add: join_blocks_def js_slice_from_nat)

lemma splice_block_start:
  "splice_block b 0 t ms = b\<lparr>b_text := t @ b_text b, b_chars := ms @ b_chars b\<rparr>"
  by (simp add: splice_block_def)

lemma keys_skip_take_next:
  "distinct (map b_key (pre @ b1 # b2 # post)) \<Longrightarrow>
   take_until (\<lambda>k. k = b_key b2) (skip_until (\<lambda>k. k = b_key b1) (map b_key (pre @ b1 # b2 # post)))
   = [b_key b1]"
  by (induction pre) auto

lemma filter_next_block:
  assumes dk: "distinct (map b_key (pre @ b1 # b2 # post))"
  shows "filter (\<lambda>b. b_key b = b_key b1 \<or> b_key b \<notin> set [b_key b1, b_key b2]) (pre @ b1 # b2 # post)
         = pre @ b1 # post"
proof -
  have "b_key b1 \<notin> b_key ` (set pre \<union> set post)" "b_key b2 \<notin> b_key ` (set pre \<union> set post)"
    using dk by auto
  then have "\<forall>x \<in> set pre \<union> set post. b_key x \<noteq> b_key b1 \<and> b_key x \<noteq> b_key b2"
    by (metis image_eqI)
  then show ?thesis using dk by (simp add: filter_id_conv)
qed

lemma get_block_for_key_iff: "get_block_for_key c k \<noteq> None \<longleftrightarrow> k \<in> set (block_keys c)"
  by (auto simp: get_block_for_key_def block_keys_def find_None_iff)

section \<open>Sample documents\<close>

text \<open>Unstyled blocks without entities, and an editor state holding them, for the witnesses.\<close>

abbreviation plain_block :: "block_key \<Rightarrow> block_type \<Rightarrow> string \<Rightarrow> block" where
  "plain_block k ty t \<equiv> \<lparr>b_key = k, b_type = ty, b_text = t,
                           b_chars = replicate (length t) \<lparr>cm_style = [], cm_entity = None\<rparr>\<rparr>"

abbreviation plain_state :: "block list \<Rightarrow> selection \<Rightarrow> editor_state" where
  "plain_state bs s \<equiv> \<lparr>current_content = \<lparr>blocks = bs, entity_map = [], sel_after = s\<rparr>,
                         es_selection = s, last_change = None, allow_undo = True, undo_stack = []\<rparr>"

text \<open>The definitions that evaluate the invariant and the block lookups on sample documents.\<close>

lemmas doc_simps = wf_content_def wf_block_def wf_meta_def block_keys_def get_block_for_key_def
  block_text_def selection_defs

section \<open>Editor-state updates\<close>

lemma current_content_push [simp]: "current_content (push es c ct) = c"
  by (simp add: push_def)

lemma allow_undo_push [simp]: "allow_undo (push es c ct) = allow_undo es"
  by (simp add: push_def)

lemma undo_stack_push_disabled: "\<not> allow_undo es \<Longrightarrow> undo_stack (push es c ct) = undo_stack es"
  by (simp add: push_def)

lemma force_selection_simps [simp]:
  "current_content (force_selection es s) = current_content es"
  "es_selection (force_selection es s) = s"
  "allow_undo (force_selection es s) = allow_undo es"
  "undo_stack (force_selection es s) = undo_stack es"
  by (simp_all add: force_selection_def)

end
