(* ===== verification/Draft_Utils.thy ===== *)
theory Draft_Utils
  imports Draft_Model
begin

text \<open>
  The selection and undo helpers of \<open>src/app/utils/draftUtils.ts\<close> that the other
  components share: the \<open>Range\<close> value, the three \<open>createSelectionWith*\<close> constructors,
  the repository's own \<open>hasEdgeWithin\<close> (a workaround for draft-js issue 1700) and
  \<open>performUnUndoableEdits\<close>.
\<close>

section \<open>Ranges and selections\<close>

record range =
  range_block_key :: block_key
  range_start :: int
  range_end :: int

definition create_selection_with_range :: "block_key \<Rightarrow> int \<Rightarrow> int \<Rightarrow> selection" where
  "create_selection_with_range k st en =
     \<lparr>anchor_key = k, anchor_offset = st, focus_key = k, focus_offset = en, is_backward = False\<rparr>"

definition create_selection_with_selection :: "selection \<Rightarrow> int \<Rightarrow> int \<Rightarrow> selection" where
  "create_selection_with_selection s ma mf =
     s\<lparr>anchor_offset := anchor_offset s + ma, focus_offset := focus_offset s + mf\<rparr>"

definition create_selection_with_block :: "block \<Rightarrow> selection" where
  "create_selection_with_block b = create_selection_with_range (b_key b) 0 (int (length (b_text b)))"

text \<open>
  \<open>hasEdgeWithin\<close>: for a selection inside one block the repository tests the anchor and
  the focus itself; across blocks it defers to draft-js.
\<close>

definition has_edge_within :: "selection \<Rightarrow> block_key \<Rightarrow> int \<Rightarrow> int \<Rightarrow> bool" where
  "has_edge_within s k st en =
     (if focus_key s \<noteq> anchor_key s then sel_has_edge_within s k st en
      else if focus_key s \<noteq> k then False
      else st \<le> focus_offset s \<and> focus_offset s \<le> en \<or> st \<le> anchor_offset s \<and> anchor_offset s \<le> en)"

lemma create_selection_with_range_simps [simp]:
  "anchor_key (create_selection_with_range k st en) = k"
  "focus_key (create_selection_with_range k st en) = k"
  "anchor_offset (create_selection_with_range k st en) = st"
  "focus_offset (create_selection_with_range k st en) = en"
  "is_backward (create_selection_with_range k st en) = False"
  by (simp_all add: create_selection_with_range_def)

lemma create_selection_with_range_same [simp]:
  "create_selection_with_range k off off = collapsed_at k off"
  by (simp add: create_selection_with_range_def collapsed_at_def)

lemma replace_text_in_block:
  assumes "get_block_for_key c k = Some b" "distinct (block_keys c)"
  shows "replace_text c (create_selection_with_range k i e) txt st
         = Some (c\<lparr>blocks := replace_block (splice_block (join_blocks b b i e) i txt
                                       (replicate (length txt) \<lparr>cm_style = st, cm_entity = None\<rparr>))
                                    (blocks c),
                   sel_after := collapsed_at k (i + int (length txt))\<rparr>)"
proof -
  let ?s = "create_selection_with_range k i e"
  let ?m = "\<lparr>cm_style = st, cm_entity = None\<rparr>"
  have kb: "b_key b = k" using get_block_for_key_Some [OF assms(1)] by simp
  have keys: "start_key ?s = k" "end_key ?s = k" "start_offset ?s = i" "end_offset ?s = e"
    by (simp_all add: selection_defs)
  obtain c1 where rr: "remove_range c ?s = Some c1"
    and c1: "c1 = c\<lparr>blocks := replace_block (join_blocks b b i e) (blocks c), sel_after := collapsed_at k i\<rparr>"
  proof (cases "i = e")
    case True
    have "replace_block b (blocks c) = blocks c"
      using assms(2) get_block_for_key_Some [OF assms(1)] by (simp add: replace_block_self block_keys_def)
    with True show ?thesis using that assms(1) by (simp add: remove_range_collapsed)
  next
    case False
    then show ?thesis using that assms kb keys keys_in_range_same [OF get_block_key_in [OF assms(1)]]
      by (simp add: remove_range_def selection_defs replace_block_def)
  qed
  show ?thesis
  proof (cases "txt = []")
    case True
    then show ?thesis using rr c1 by (simp add: replace_text_def)
  next
    case False
    have "get_block_for_key c1 k = Some (join_blocks b b i e)"
      using c1 get_block_for_key_Some [OF assms(1)] by (auto simp: get_block_for_key_def find_replace_block)
    note ins = insert_text_at_block [OF this False, of i ?m]
    have "sel_after c1 = collapsed_at k i" using c1 by simp
    then have "replace_text c ?s txt st = insert_text_at c1 (collapsed_at k i) txt ?m"
      using rr by (simp add: replace_text_def)
    with ins c1 show ?thesis by simp
  qed
qed

lemma create_selection_with_block_simps [simp]:
  "anchor_key (create_selection_with_block b) = b_key b"
  "focus_key (create_selection_with_block b) = b_key b"
  "anchor_offset (create_selection_with_block b) = 0"
  "focus_offset (create_selection_with_block b) = int (length (b_text b))"
  "is_backward (create_selection_with_block b) = False"
  by (simp_all add: create_selection_with_block_def)

lemma slice_bounds_block [simp]:
  "b_key b' = b_key b \<Longrightarrow> slice_bounds (create_selection_with_block b) b' = (0, int (length (b_text b)))"
  by (simp add: slice_bounds_def selection_defs)

lemma set_block_type_block:
  assumes "get_block_for_key c (b_key b) = Some b0" "distinct (block_keys c)"
  shows "set_block_type c (create_selection_with_block b) t
         = Some (c\<lparr>blocks := replace_block (b0\<lparr>b_type := t\<rparr>) (blocks c),
                   sel_after := create_selection_with_block b\<rparr>)"
  using modify_blocks_block [OF assms, of "create_selection_with_block b" "\<lambda>_ x. x\<lparr>b_type := t\<rparr>"]
  by (simp add: set_block_type_def)

lemma set_block_type_keys:
  "b_key b \<in> set (block_keys c) \<Longrightarrow> distinct (block_keys c) \<Longrightarrow>
   \<exists>c'. set_block_type c (create_selection_with_block b) t = Some c' \<and> block_keys c' = block_keys c"
  using set_block_type_block [of c b _ t] get_block_for_key_iff [of c "b_key b"] by fastforce

lemma replace_text_keys:
  "k \<in> set (block_keys c) \<Longrightarrow> distinct (block_keys c) \<Longrightarrow>
   \<exists>c'. replace_text c (create_selection_with_range k i e) t st = Some c' \<and> block_keys c' = block_keys c"
  using replace_text_in_block [of c k _ i e t st] get_block_for_key_iff [of c k] by fastforce

lemma remove_range_next_block:
  assumes bs: "blocks c = pre @ b1 # b2 # post" and d: "distinct (block_keys c)"
  shows "remove_range c \<lparr>anchor_key = b_key b1, anchor_offset = 0, focus_key = b_key b2,
                         focus_offset = 0, is_backward = False\<rparr>
         = Some (c\<lparr>blocks := pre @ join_blocks b1 b2 0 0 # post, sel_after := collapsed_at (b_key b1) 0\<rparr>)"
proof -
  have dk: "distinct (map b_key (pre @ b1 # b2 # post))" using d bs by (simp add: block_keys_def)
  have g1: "get_block_for_key c (b_key b1) = Some b1"
    using dk bs by (simp add: get_block_for_key_def find_key_split)
  have g2: "get_block_for_key c (b_key b2) = Some b2"
    using dk bs find_key_split [of "pre @ [b1]" b2 post] by (simp add: get_block_for_key_def)
  have kr: "keys_in_range c (b_key b1) (b_key b2) = [b_key b1, b_key b2]"
    using keys_skip_take_next [OF dk] bs by (simp add: keys_in_range_def block_keys_def)
  have ne: "b_key b1 \<noteq> b_key b2" using dk by simp
  have mp: "map (\<lambda>b. if b_key b = b_key b1 then join_blocks b1 b2 0 0 else b) (pre @ b1 # post)
        = pre @ join_blocks b1 b2 0 0 # post"
    using replace_block_split [of pre b1 post "join_blocks b1 b2 0 0"] dk
    by (simp add: replace_block_def)
  let ?s = "\<lparr>anchor_key = b_key b1, anchor_offset = 0, focus_key = b_key b2,
             focus_offset = 0, is_backward = False\<rparr>"
  have sk: "start_key ?s = b_key b1" "end_key ?s = b_key b2" "start_offset ?s = 0" "end_offset ?s = 0"
    "is_collapsed ?s = False"
    using ne by (simp_all add: selection_defs)
  show ?thesis unfolding remove_range_def Let_def
    by (simp only: sk g1 g2 kr bs filter_next_block [OF dk] mp option.case prod.case if_False)
qed

section \<open>Undo\<close>

text \<open>
  \<open>performUnUndoableEdits\<close> runs the edits on a state whose undo is disabled and then
  enables undo again, whatever it was before.
\<close>

definition perform_un_undoable_edits ::
  "editor_state \<Rightarrow> (editor_state \<Rightarrow> editor_state) \<Rightarrow> editor_state" where
  "perform_un_undoable_edits es f = (f (es\<lparr>allow_undo := False\<rparr>))\<lparr>allow_undo := True\<rparr>"

lemma perform_un_undoable_push [simp]:
  "current_content (perform_un_undoable_edits es (\<lambda>d. push d c ct)) = c"
  "undo_stack (perform_un_undoable_edits es (\<lambda>d. push d c ct)) = undo_stack es"
  "allow_undo (perform_un_undoable_edits es f) = True"
  by (simp_all add: perform_un_undoable_edits_def push_def)
lemma create_selection_with_selection_zero [simp]: "create_selection_with_selection s 0 0 = s"
  by (simp add: create_selection_with_selection_def)

lemma un_undoable_push_force [simp]:
  "current_content (perform_un_undoable_edits es (\<lambda>d. force_selection (push d c ct) s)) = c"
  "es_selection (perform_un_undoable_edits es (\<lambda>d. force_selection (push d c ct) s)) = s"
  "undo_stack (perform_un_undoable_edits es (\<lambda>d. force_selection (push d c ct) s)) = undo_stack es"
  "last_change (perform_un_undoable_edits es (\<lambda>d. force_selection (push d c ct) s))
     = (if c = current_content es then last_change es else Some ct)"
  by (simp_all add: perform_un_undoable_edits_def push_def force_selection_def)



lemma insert_text_in_block:
  assumes "get_block_for_key c k = Some b" "distinct (block_keys c)"
  shows "insert_text c (collapsed_at k i) txt
         = Some (c\<lparr>blocks := replace_block (splice_block b i txt
                                       (replicate (length txt) \<lparr>cm_style = [], cm_entity = None\<rparr>))
                                    (blocks c),
                   sel_after := collapsed_at k (i + int (length txt))\<rparr>)"
  using replace_text_in_block [OF assms, of i i "txt" "[]"]
  by (simp add: insert_text_def is_collapsed_def)


lemma replace_block_changes:
  assumes "get_block_for_key c k = Some b" "b_key nb = k" "b_text nb \<noteq> b_text b"
  shows "c\<lparr>blocks := replace_block nb (blocks c), sel_after := s\<rparr> \<noteq> c"
proof
  assume e: "c\<lparr>blocks := replace_block nb (blocks c), sel_after := s\<rparr> = c"
  have "get_block_for_key (c\<lparr>blocks := replace_block nb (blocks c)\<rparr>) k = Some nb"
    using get_block_replace_block [OF assms(2)] assms(1) by simp
  moreover have "c\<lparr>blocks := replace_block nb (blocks c)\<rparr> = c"
    using arg_cong [OF e, of blocks] by (cases c) simp
  ultimately show False using assms(1,3) by simp
qed

end
