(* ===== verification/Blocks.thy ===== *)
theory Blocks
  imports Draft_Utils
begin

text \<open>
  The static block registry of \<open>coreBlockPlugin/blocks.ts\<close> and the \<open>matchBlock\<close>
  helper of \<open>steps/convertBlockType.ts\<close>.  A definition is static (blockquote and the two
  list kinds: its prefix is consumed on conversion, it has a canonical prefix string and a
  \<open>continues\<close> flag) or expandable (the six headers: the prefix stays as a decorated run,
  its canonical form is a list of text pieces with optional styles).  The registry's regular
  expressions are executed by \<open>pattern_exec\<close>, which returns what \<open>RegExp.exec\<close>
  returns: the index of the leftmost match, the matched text and the first group.
\<close>

section \<open>Patterns\<close>

text \<open>
  The three shapes of regular expression the registry uses: \<open>/^(#...#) /\<close> (a captured
  run of hashes and a space, anchored), \<open>/^> /\<close> and \<open>/^- /\<close> (an anchored literal), and
  \<open>/1[.)] /\<close> (the ordered-list marker, not anchored).
\<close>

datatype pattern = AnchoredGroupSpace string | AnchoredLiteral string | OrderedMarker

record regex_match =
  m_index :: nat
  m_whole :: string
  m_group1 :: "string option"

fun find_ordered_marker :: "string \<Rightarrow> nat \<Rightarrow> regex_match option" where
  "find_ordered_marker (c1 # c2 # c3 # rest) i =
     (if c1 = CHR ''1'' \<and> (c2 = CHR ''.'' \<or> c2 = CHR '')'') \<and> c3 = CHR '' ''
      then Some \<lparr>m_index = i, m_whole = [c1, c2, c3], m_group1 = None\<rparr>
      else find_ordered_marker (c2 # c3 # rest) (Suc i))"
| "find_ordered_marker _ i = None"

fun pattern_exec :: "pattern \<Rightarrow> string \<Rightarrow> regex_match option" where
  "pattern_exec (AnchoredGroupSpace g) t =
     (if starts_with t (g @ '' '') then Some \<lparr>m_index = 0, m_whole = g @ '' '', m_group1 = Some g\<rparr>
      else None)"
| "pattern_exec (AnchoredLiteral l) t =
     (if starts_with t l then Some \<lparr>m_index = 0, m_whole = l, m_group1 = None\<rparr> else None)"
| "pattern_exec OrderedMarker t = find_ordered_marker t 0"

text \<open>\<open>match[match[1] ? 1 : 0]\<close>: the first group when it is a non-empty string.\<close>

definition match_prefix :: "regex_match \<Rightarrow> string" where
  "match_prefix m = (case m_group1 m of Some g \<Rightarrow> if g \<noteq> [] then g else m_whole m | None \<Rightarrow> m_whole m)"

section \<open>The registry\<close>

datatype core_block_definition =
    StaticBlock block_type pattern string bool
  | ExpandableBlock block_type pattern "(string \<times> style option) list"

fun def_type :: "core_block_definition \<Rightarrow> block_type" where
  "def_type (StaticBlock t p c k) = t"
| "def_type (ExpandableBlock t p c) = t"

fun def_pattern :: "core_block_definition \<Rightarrow> pattern" where
  "def_pattern (StaticBlock t p c k) = p"
| "def_pattern (ExpandableBlock t p c) = p"

fun def_expandable :: "core_block_definition \<Rightarrow> bool" where
  "def_expandable (StaticBlock t p c k) = False"
| "def_expandable (ExpandableBlock t p c) = True"

text \<open>\<open>continues\<close> exists on static definitions only; on an expandable one it is undefined.\<close>

fun def_continues :: "core_block_definition \<Rightarrow> bool" where
  "def_continues (StaticBlock t p c k) = k"
| "def_continues (ExpandableBlock t p c) = False"

definition decorator :: string where
  "decorator = ''core.block.decorator''"

definition header_definition :: "block_type \<Rightarrow> nat \<Rightarrow> core_block_definition" where
  "header_definition t n =
     ExpandableBlock t (AnchoredGroupSpace (replicate n CHR ''#''))
       [(replicate n CHR ''#'', Some [decorator]), ('' '', None)]"

definition block_values :: "core_block_definition list" where
  "block_values =
     [header_definition HeaderOne 1, header_definition HeaderTwo 2,
      header_definition HeaderThree 3, header_definition HeaderFour 4,
      header_definition HeaderFive 5, header_definition HeaderSix 6,
      StaticBlock Blockquote (AnchoredLiteral ''> '') ''> '' False,
      StaticBlock UnorderedListItem (AnchoredLiteral ''- '') ''- '' True,
      StaticBlock OrderedListItem OrderedMarker '''' True]"

text \<open>\<open>blocks[type]\<close>: the registry keyed by block type.\<close>

definition blocks_registry :: "block_type \<Rightarrow> core_block_definition option" where
  "blocks_registry t = find (\<lambda>d. def_type d = t) block_values"

text \<open>\<open>matchBlock\<close>: the first definition, in registry order, whose pattern matches.\<close>

fun match_block_in :: "core_block_definition list \<Rightarrow> string \<Rightarrow> (core_block_definition \<times> regex_match) option" where
  "match_block_in [] t = None"
| "match_block_in (d # ds) t =
     (case pattern_exec (def_pattern d) t of Some m \<Rightarrow> Some (d, m) | None \<Rightarrow> match_block_in ds t)"

definition match_block :: "string \<Rightarrow> (core_block_definition \<times> regex_match) option" where
  "match_block t = match_block_in block_values t"

section \<open>Facts about the registry\<close>

lemma blocks_registry_simps [simp]:
  "blocks_registry HeaderOne = Some (header_definition HeaderOne 1)"
  "blocks_registry HeaderTwo = Some (header_definition HeaderTwo 2)"
  "blocks_registry HeaderThree = Some (header_definition HeaderThree 3)"
  "blocks_registry HeaderFour = Some (header_definition HeaderFour 4)"
  "blocks_registry HeaderFive = Some (header_definition HeaderFive 5)"
  "blocks_registry HeaderSix = Some (header_definition HeaderSix 6)"
  "blocks_registry Blockquote = Some (StaticBlock Blockquote (AnchoredLiteral ''> '') ''> '' False)"
  "blocks_registry UnorderedListItem = Some (StaticBlock UnorderedListItem (AnchoredLiteral ''- '') ''- '' True)"
  "blocks_registry OrderedListItem = Some (StaticBlock OrderedListItem OrderedMarker '''' True)"
  "blocks_registry Unstyled = None"
  "blocks_registry (OtherBlockType s) = None"
  by (simp_all add: blocks_registry_def block_values_def header_definition_def)

lemma header_definition_simps [simp]:
  "def_type (header_definition t n) = t"
  "def_expandable (header_definition t n) = True"
  "def_pattern (header_definition t n) = AnchoredGroupSpace (replicate n CHR ''#'')"
  by (simp_all add: header_definition_def)

lemma find_ordered_marker_index:
  "find_ordered_marker t i = Some m \<Longrightarrow>
   i \<le> m_index m \<and> m_whole m = take 3 (drop (m_index m - i) t) \<and> m_index m - i + 3 \<le> length t"
  by (induction t i rule: find_ordered_marker.induct) (auto split: if_splits simp: drop_Cons')


text \<open>
  What \<open>matchBlock\<close> answers for the texts that trigger a conversion: \<open>n\<close> hashes and a
  space select the \<open>n\<close>-th header (the patterns of the lower levels fail on the
  \<open>n\<close>-th character), \<open>"> "\<close> and \<open>"- "\<close> the quote and the bulleted item.
\<close>

lemma match_block_header:
  assumes "1 \<le> n" "n \<le> 6"
  shows "match_block (replicate n CHR ''#'' @ CHR '' '' # rest)
         = Some (block_values ! (n - 1),
                 \<lparr>m_index = 0, m_whole = replicate n CHR ''#'' @ '' '',
                  m_group1 = Some (replicate n CHR ''#'')\<rparr>)"
proof -
  have "n = 1 \<or> n = 2 \<or> n = 3 \<or> n = 4 \<or> n = 5 \<or> n = 6" using assms by auto
  then show ?thesis
    by (elim disjE) (simp_all add: match_block_def block_values_def header_definition_def
                                   numeral_eq_Suc)
qed

lemma match_block_quote:
  "match_block (''> '' @ rest) = Some (block_values ! 6, \<lparr>m_index = 0, m_whole = ''> '', m_group1 = None\<rparr>)"
  by (simp add: match_block_def block_values_def header_definition_def numeral_eq_Suc)

lemma match_block_bullet:
  "match_block (''- '' @ rest) = Some (block_values ! 7, \<lparr>m_index = 0, m_whole = ''- '', m_group1 = None\<rparr>)"
  by (simp add: match_block_def block_values_def header_definition_def numeral_eq_Suc)


lemma header_values:
  assumes "1 \<le> n" "n \<le> 6"
  shows "def_expandable (block_values ! (n - 1))" "def_type (block_values ! (n - 1)) \<noteq> Unstyled"
proof -
  have "n = 1 \<or> n = 2 \<or> n = 3 \<or> n = 4 \<or> n = 5 \<or> n = 6" using assms by auto
  then show "def_expandable (block_values ! (n - 1))" "def_type (block_values ! (n - 1)) \<noteq> Unstyled"
    by (auto simp: block_values_def)
qed


lemma header_registry:
  assumes "1 \<le> n" "n \<le> 6"
  shows "blocks_registry (def_type (block_values ! (n - 1))) = Some (block_values ! (n - 1))"
proof -
  have "n = 1 \<or> n = 2 \<or> n = 3 \<or> n = 4 \<or> n = 5 \<or> n = 6" using assms by auto
  then show ?thesis by (elim disjE) (simp_all add: block_values_def)
qed

end
