(* ===== verification/Convert_Block_Type.thy ===== *)
theory Convert_Block_Type
  imports Blocks
begin

text \<open>
  The convert step of the block-type state machine (spec 4.4), \<open>convertBlockType\<close> of
  \<open>coreBlockPlugin/steps/convertBlockType.ts\<close>: it compares the editor state after a
  change with the one before and re-types the changed blocks.  Every place where the
  TypeScript dereferences a block that may be \<open>undefined\<close> is a \<open>None\<close> of the model.
\<close>

section \<open>The list-exit test\<close>

text \<open>
  \<open>didCompleteList\<close>: a block split with collapsed selections before and after, in a list
  item that was empty.  The block at the previous selection is only read once the first
  three tests have passed (\<open>&&\<close> short-circuits), and reading it fails when it is missing.
\<close>

definition did_complete_list :: "editor_state \<Rightarrow> editor_state \<Rightarrow> bool option" where
  "did_complete_list prev es =
     (if last_change es = Some SplitBlock \<and> is_collapsed (es_selection es)
         \<and> is_collapsed (es_selection prev)
      then map_option (\<lambda>pb. b_type pb \<in> {UnorderedListItem, OrderedListItem} \<and> b_text pb = [])
             (get_block_for_key (current_content prev) (start_key (es_selection prev)))
      else Some False)"

text \<open>
  Pressing Enter on an empty list item: the block created by the split is removed again
  (\<open>removeRange\<close> from the start of the old block to the start of the new one), the old
  block becomes unstyled and the caret goes to it.
\<close>

definition complete_list :: "editor_state \<Rightarrow> editor_state \<Rightarrow> editor_state option" where
  "complete_list prev es =
     do {
       let c = current_content es;
       to_convert \<leftarrow> get_block_for_key c (start_key (es_selection prev));
       to_delete \<leftarrow> get_block_for_key c (start_key (es_selection es));
       c1 \<leftarrow> remove_range c \<lparr>anchor_key = b_key to_convert, anchor_offset = 0,
                              focus_key = b_key to_delete, focus_offset = 0, is_backward = False\<rparr>;
       c2 \<leftarrow> set_block_type c1 (create_selection_with_block to_convert) Unstyled;
       Some (perform_un_undoable_edits es
               (\<lambda>d. force_selection (push d c2 ChangeBlockType) (create_selection_with_block to_convert)))
     }"

section \<open>Re-typing one changed block\<close>

text \<open>
  The reducer's accumulator: the content so far and, per block key, how many characters
  the conversion removed before the caret (\<open>adjustSelection\<close>; a missing entry reads as
  0, as \<open>|| 0\<close> does).
\<close>

type_synonym convert_acc = "content \<times> (block_key \<Rightarrow> int)"

text \<open>
  Promotion: strip the decorator style from the whole block, replace the matched prefix
  (from the match index to the length of the group or match) by the group or match
  (expandable) or by nothing (static), decorated, and set the new type.
\<close>

definition promote_block ::
  "content \<Rightarrow> block \<Rightarrow> core_block_definition \<Rightarrow> regex_match \<Rightarrow> content option" where
  "promote_block c b d m =
     do {
       c1 \<leftarrow> remove_inline_style c (create_selection_with_block b) decorator;
       c2 \<leftarrow> replace_text c1
               (create_selection_with_range (b_key b) (int (m_index m)) (int (length (match_prefix m))))
               (if def_expandable d then match_prefix m else []) [decorator];
       set_block_type c2 (create_selection_with_block b) (def_type d)
     }"

definition demote_block :: "content \<Rightarrow> block \<Rightarrow> content option" where
  "demote_block c b =
     do {
       c1 \<leftarrow> set_block_type c (create_selection_with_block b) Unstyled;
       remove_inline_style c1 (create_selection_with_block b) decorator
     }"

text \<open>
  \<open>matchBlock(prevBlockText || '')[0] === currentBlockDefinition\<close>: \<open>null\<close> never
  equals \<open>undefined\<close>, so a type outside the registry never counts as matched.
\<close>

definition prev_matched_own :: "core_block_definition option \<Rightarrow> string \<Rightarrow> bool" where
  "prev_matched_own cd pt =
     (case cd of None \<Rightarrow> False | Some d \<Rightarrow> map_option fst (match_block pt) = Some d)"

text \<open>
  The pattern part of the reducer: a match of another type promotes the block and records
  the caret adjustment; no match demotes a block that is brand new, or that is typed by an
  expandable definition whose pattern its previous text matched.
\<close>

definition convert_by_pattern ::
  "content \<Rightarrow> (block_key \<Rightarrow> int) \<Rightarrow> block \<Rightarrow> block option \<Rightarrow> core_block_definition option
   \<Rightarrow> convert_acc option" where
  "convert_by_pattern c adj b prev_b cd =
     (case match_block (b_text b) of
        Some (nd, m) \<Rightarrow>
          if b_type b \<noteq> def_type nd
          then map_option
                 (\<lambda>c'. (c', adj(b_key b := if def_expandable nd then 0
                                            else int (length (match_prefix m)) - int (m_index m))))
                 (promote_block c b nd m)
          else Some (c, adj)
      | None \<Rightarrow>
          if prev_b = None
             \<or> b_type b \<noteq> Unstyled
               \<and> (case cd of None \<Rightarrow> True | Some d \<Rightarrow> def_expandable d)
               \<and> prev_matched_own cd (case prev_b of None \<Rightarrow> [] | Some pb \<Rightarrow> b_text pb)
          then map_option (\<lambda>c'. (c', adj)) (demote_block c b)
          else Some (c, adj))"

text \<open>
  Blocks of a static type (quote, list items) keep their type whatever their text; only a
  brand-new one whose definition does not continue on Enter becomes unstyled.
\<close>

definition retype_block ::
  "content \<Rightarrow> (block_key \<Rightarrow> int) \<Rightarrow> block \<Rightarrow> block option \<Rightarrow> convert_acc option" where
  "retype_block c adj b prev_b =
     (case blocks_registry (b_type b) of
        Some d \<Rightarrow>
          if \<not> def_expandable d then
            (if prev_b = None \<and> \<not> def_continues d
             then map_option (\<lambda>c'. (c', adj)) (set_block_type c (create_selection_with_block b) Unstyled)
             else Some (c, adj))
          else convert_by_pattern c adj b prev_b (Some d)
      | None \<Rightarrow> convert_by_pattern c adj b prev_b None)"

text \<open>
  The reducer of \<open>convertBlockType\<close> for one block: an unmodified block is skipped; an
  empty block that a forward delete merged with the next one takes the next block's type
  (reading the next block fails when there is none); every other block is re-typed.
\<close>

definition convert_one :: "content \<Rightarrow> change_type option \<Rightarrow> convert_acc \<Rightarrow> block \<Rightarrow> convert_acc option" where
  "convert_one prev_c ct acc b =
     (case acc of (c, adj) \<Rightarrow>
        case get_block_for_key prev_c (b_key b) of
          Some pb \<Rightarrow>
            if pb = b then Some acc
            else if b_text pb = [] \<and> ct = Some DeleteCharacter then
              do {
                nb \<leftarrow> get_block_after prev_c (b_key pb);
                c' \<leftarrow> set_block_type c (create_selection_with_block b) (b_type nb);
                Some (c', adj)
              }
            else retype_block c adj b (Some pb)
        | None \<Rightarrow> retype_block c adj b None)"

fun convert_blocks ::
  "content \<Rightarrow> change_type option \<Rightarrow> convert_acc \<Rightarrow> block list \<Rightarrow> convert_acc option" where
  "convert_blocks prev_c ct acc [] = Some acc"
| "convert_blocks prev_c ct acc (b # bs) =
     convert_one prev_c ct acc b \<bind> (\<lambda>acc'. convert_blocks prev_c ct acc' bs)"

text \<open>
  The blocks visited: from the first block that starts either selection, up to (but not
  including) the block after the end of the new selection; to the end of the document when
  there is no such block.
\<close>

definition visited_blocks :: "content \<Rightarrow> selection \<Rightarrow> selection \<Rightarrow> block list" where
  "visited_blocks c s prev_s =
     take_until (\<lambda>b. case get_block_after c (end_key s) of None \<Rightarrow> False | Some nb \<Rightarrow> b_key nb = b_key b)
       (skip_until (\<lambda>b. b_key b = start_key s \<or> b_key b = start_key prev_s) (blocks c))"

section \<open>The convert step\<close>

definition convert_block_type :: "editor_state \<Rightarrow> editor_state \<Rightarrow> editor_state option" where
  "convert_block_type es prev =
     (let c = current_content es; s = es_selection es in
      if c = current_content prev then Some es
      else do {
        dcl \<leftarrow> did_complete_list prev es;
        if dcl then complete_list prev es
        else do {
          (c', adj) \<leftarrow> convert_blocks (current_content prev) (last_change es) (c, \<lambda>_. 0)
                         (visited_blocks c s (es_selection prev));
          Some (if c' \<noteq> c
                then perform_un_undoable_edits es
                       (\<lambda>d. force_selection (push d c' ChangeBlockType)
                              (create_selection_with_selection s (- adj (start_key s)) (- adj (start_key s))))
                else es)
        }
      })"


section \<open>The conversions on one block\<close>

text \<open>The block a promotion produces, and the block a demotion produces.\<close>

definition strip_decorator :: "char_meta \<Rightarrow> char_meta" where
  "strip_decorator m = m\<lparr>cm_style := removeAll decorator (cm_style m)\<rparr>"

definition promoted_block :: "block \<Rightarrow> core_block_definition \<Rightarrow> regex_match \<Rightarrow> block" where
  "promoted_block b d m =
     (let b1 = b\<lparr>b_chars := map strip_decorator (b_chars b)\<rparr>;
          i = int (m_index m); e = int (length (match_prefix m));
          t = (if def_expandable d then match_prefix m else [])
      in (splice_block (join_blocks b1 b1 i e) i t
            (replicate (length t) \<lparr>cm_style = [decorator], cm_entity = None\<rparr>))\<lparr>b_type := def_type d\<rparr>)"

definition demoted_block :: "block \<Rightarrow> block" where
  "demoted_block b = b\<lparr>b_type := Unstyled, b_chars := map strip_decorator (b_chars b)\<rparr>"

definition promote_adjust :: "core_block_definition \<Rightarrow> regex_match \<Rightarrow> int" where
  "promote_adjust nd m = (if def_expandable nd then 0 else int (length (match_prefix m)) - int (m_index m))"

lemma remove_decorator_block:
  assumes "get_block_for_key c (b_key b) = Some b0" "distinct (block_keys c)"
    and "length (b_chars b0) = length (b_text b)"
  shows "remove_inline_style c (create_selection_with_block b) decorator
         = Some (c\<lparr>blocks := replace_block (b0\<lparr>b_chars := map strip_decorator (b_chars b0)\<rparr>) (blocks c),
                   sel_after := create_selection_with_block b\<rparr>)"
proof -
  have k: "b_key b0 = b_key b" using get_block_for_key_Some [OF assms(1)] by simp
  show ?thesis
    using modify_blocks_block [OF assms(1,2), of "create_selection_with_block b"
        "\<lambda>r x. x\<lparr>b_chars := map_chars_in (\<lambda>m. m\<lparr>cm_style := removeAll decorator (cm_style m)\<rparr>) r (b_chars x)\<rparr>"]
      k assms(3) map_chars_in_all [of _ "b_chars b0"]
    by (simp add: remove_inline_style_def modify_chars_def strip_decorator_def [abs_def])
qed


lemma promote_block_eq:
  assumes b: "get_block_for_key c (b_key b) = Some b" and d: "distinct (block_keys c)"
    and l: "length (b_chars b) = length (b_text b)"
  shows "promote_block c b nd m
         = Some (c\<lparr>blocks := replace_block (promoted_block b nd m) (blocks c),
                   sel_after := create_selection_with_block b\<rparr>)"
proof -
  let ?k = "b_key b"
  let ?b1 = "b\<lparr>b_chars := map strip_decorator (b_chars b)\<rparr>"
  let ?c1 = "c\<lparr>blocks := replace_block ?b1 (blocks c), sel_after := create_selection_with_block b\<rparr>"
  let ?i = "int (m_index m)" and ?e = "int (length (match_prefix m))"
  let ?t = "if def_expandable nd then match_prefix m else []"
  let ?b2 = "splice_block (join_blocks ?b1 ?b1 ?i ?e) ?i ?t
               (replicate (length ?t) \<lparr>cm_style = [decorator], cm_entity = None\<rparr>)"
  let ?c2 = "?c1\<lparr>blocks := replace_block ?b2 (blocks ?c1), sel_after := collapsed_at ?k (?i + int (length ?t))\<rparr>"
  have g1: "get_block_for_key ?c1 ?k = Some ?b1" using b by simp
  have "replace_text ?c1 (create_selection_with_range ?k ?i ?e) ?t [decorator] = Some ?c2"
    using replace_text_in_block [OF g1] d by simp
  moreover have "get_block_for_key ?c2 ?k = Some ?b2" using b by simp
  ultimately show ?thesis
    using remove_decorator_block [OF b d l] set_block_type_block [of ?c2 b ?b2] d
    by (simp add: promote_block_def promoted_block_def Let_def)
qed

lemma demote_block_eq:
  assumes b: "get_block_for_key c (b_key b) = Some b" and d: "distinct (block_keys c)"
    and l: "length (b_chars b) = length (b_text b)"
  shows "demote_block c b
         = Some (c\<lparr>blocks := replace_block (demoted_block b) (blocks c),
                   sel_after := create_selection_with_block b\<rparr>)"
proof -
  let ?c1 = "c\<lparr>blocks := replace_block (b\<lparr>b_type := Unstyled\<rparr>) (blocks c),
                sel_after := create_selection_with_block b\<rparr>"
  have "get_block_for_key ?c1 (b_key b) = Some (b\<lparr>b_type := Unstyled\<rparr>)" using b by simp
  with set_block_type_block [OF b d] remove_decorator_block [of ?c1 b "b\<lparr>b_type := Unstyled\<rparr>"] d l
  show ?thesis by (simp add: demote_block_def demoted_block_def)
qed


section \<open>A change inside one block\<close>

text \<open>
  When both selections start in block \<open>b\<close> and the new one ends there, the conversion
  visits \<open>b\<close> alone.
\<close>

lemma visited_blocks_single:
  assumes bs: "blocks c = pre @ b # post" and d: "distinct (block_keys c)"
    and "start_key s = b_key b" "end_key s = b_key b" "start_key ps = b_key b"
  shows "visited_blocks c s ps = [b]"
proof -
  have dk: "distinct (map b_key (pre @ b # post))" using d bs by (simp add: block_keys_def)
  then have "skip_until (\<lambda>x. b_key x = start_key s \<or> b_key x = start_key ps) (blocks c) = b # post"
    using assms(3,5) dk unfolding bs by (intro skip_until_split) (auto simp: image_iff)
  moreover have "get_block_after c (end_key s) = (case post of [] \<Rightarrow> None | p # _ \<Rightarrow> Some p)"
    using dk assms(4) bs by (simp add: get_block_after_def block_after_split)
  ultimately show ?thesis
    using dk by (cases post) (auto simp: visited_blocks_def)
qed

lemma convert_block_type_single:
  assumes bs: "blocks (current_content es) = pre @ b # post"
    and d: "distinct (block_keys (current_content es))"
    and k: "start_key (es_selection es) = b_key b" "end_key (es_selection es) = b_key b"
           "start_key (es_selection prev) = b_key b"
    and ch: "current_content es \<noteq> current_content prev"
    and nl: "last_change es \<noteq> Some SplitBlock"
  shows "convert_block_type es prev =
         convert_one (current_content prev) (last_change es) (current_content es, \<lambda>_. 0) b \<bind>
           (\<lambda>(c', adj). Some (if c' \<noteq> current_content es
                               then perform_un_undoable_edits es
                                      (\<lambda>d. force_selection (push d c' ChangeBlockType)
                                         (create_selection_with_selection (es_selection es)
                                            (- adj (start_key (es_selection es)))
                                            (- adj (start_key (es_selection es)))))
                               else es))"
  using visited_blocks_single [OF bs d k] ch nl
  by (simp add: convert_block_type_def did_complete_list_def Let_def case_prod_beta
           split: option.split)


text \<open>A promotion at the start of the block replaces its first characters.\<close>

lemma promoted_block_at_start:
  assumes "m_index m = 0" "length (match_prefix m) \<le> length (b_text b)"
    and "length (b_chars b) = length (b_text b)"
    and "t = (if def_expandable nd then match_prefix m else [])"
  shows "promoted_block b nd m
         = b\<lparr>b_type := def_type nd, b_text := t @ drop (length (match_prefix m)) (b_text b),
             b_chars := replicate (length t) \<lparr>cm_style = [decorator], cm_entity = None\<rparr>
                        @ drop (length (match_prefix m)) (map strip_decorator (b_chars b))\<rparr>"
  using assms
  by (simp add: promoted_block_def Let_def join_blocks_drop splice_block_start)

lemma convert_one_promote:
  assumes pb: "get_block_for_key pc (b_key b) \<noteq> Some b" and ct: "ct \<noteq> Some DeleteCharacter"
    and reg: "case blocks_registry (b_type b) of None \<Rightarrow> True | Some d \<Rightarrow> def_expandable d"
    and mb: "match_block (b_text b) = Some (nd, m)" and ty: "b_type b \<noteq> def_type nd"
    and b: "get_block_for_key c (b_key b) = Some b" and d: "distinct (block_keys c)"
    and l: "length (b_chars b) = length (b_text b)"
  shows "convert_one pc ct (c, adj) b
         = Some (c\<lparr>blocks := replace_block (promoted_block b nd m) (blocks c),
                   sel_after := create_selection_with_block b\<rparr>,
                 adj(b_key b := if def_expandable nd then 0
                                else int (length (match_prefix m)) - int (m_index m)))"
  using pb ct reg mb ty
  by (auto simp: convert_one_def retype_block_def convert_by_pattern_def promote_block_eq [OF b d l]
           split: option.splits)


text \<open>
  A conversion of a single changed block whose text matches another definition: the
  block is promoted, the step is pushed without an undo entry, and the caret moves left
  by the number of characters the promotion removed before it.
\<close>

lemma convert_single_promote:
  assumes bs: "blocks (current_content es) = pre @ b # post"
    and wf: "wf_content (current_content es)"
    and k: "start_key (es_selection es) = b_key b" "end_key (es_selection es) = b_key b"
           "start_key (es_selection prev) = b_key b"
    and pb: "get_block_for_key (current_content prev) (b_key b) \<noteq> Some b"
    and lc: "last_change es \<noteq> Some DeleteCharacter" "last_change es \<noteq> Some SplitBlock"
    and reg: "case blocks_registry (b_type b) of None \<Rightarrow> True | Some d \<Rightarrow> def_expandable d"
    and mb: "match_block (b_text b) = Some (nd, m)" and ty: "b_type b \<noteq> def_type nd"
  shows "convert_block_type es prev
         = Some (perform_un_undoable_edits es
                  (\<lambda>d. force_selection
                     (push d (current_content es\<lparr>blocks := pre @ promoted_block b nd m # post,
                                                 sel_after := create_selection_with_block b\<rparr>)
                        ChangeBlockType)
                     (create_selection_with_selection (es_selection es)
                        (- promote_adjust nd m) (- promote_adjust nd m))))"
proof -
  let ?c = "current_content es"
  let ?c' = "?c\<lparr>blocks := pre @ promoted_block b nd m # post, sel_after := create_selection_with_block b\<rparr>"
  have d: "distinct (block_keys ?c)" using wf by (simp add: wf_content_def)
  then have b: "get_block_for_key ?c (b_key b) = Some b"
    using bs by (simp add: get_block_for_key_def block_keys_def find_key_split)
  have l: "length (b_chars b) = length (b_text b)"
    using get_block_wf [OF b wf] by (simp add: wf_block_def)
  have ch: "?c \<noteq> current_content prev" using pb b by auto
  have one: "convert_one (current_content prev) (last_change es) (?c, \<lambda>_. 0) b
             = Some (?c', (\<lambda>_. 0)(b_key b := promote_adjust nd m))"
    using convert_one_promote [OF pb lc(1) reg mb ty b d l, of "\<lambda>_. 0"] bs d
    by (simp add: replace_block_split block_keys_def promote_adjust_def promoted_block_def Let_def)
  have "b_type (promoted_block b nd m) \<noteq> b_type b" using ty by (simp add: promoted_block_def Let_def)
  then have "promoted_block b nd m \<noteq> b" by metis
  then have "blocks ?c' \<noteq> blocks ?c" using bs by simp
  then have ne: "?c' \<noteq> ?c" by metis
  show ?thesis
    using convert_block_type_single [OF bs d k ch lc(2)] one ne k(1) by simp
qed

lemma convert_static_prefix:
  assumes bs: "blocks (current_content es) = pre @ b # post"
    and wf: "wf_content (current_content es)"
    and ty: "b_type b = Unstyled" and tx: "b_text b = p @ rest"
    and mb: "match_block (p @ rest) = Some (nd, \<lparr>m_index = 0, m_whole = p, m_group1 = None\<rparr>)"
    and st: "\<not> def_expandable nd" "def_type nd \<noteq> Unstyled"
    and k: "start_key (es_selection es) = b_key b" "end_key (es_selection es) = b_key b"
           "start_key (es_selection prev) = b_key b"
    and pb: "get_block_for_key (current_content prev) (b_key b) \<noteq> Some b"
    and lc: "last_change es = Some InsertCharacters"
  shows "\<exists>es'. convert_block_type es prev = Some es'
           \<and> blocks (current_content es')
               = pre @ b\<lparr>b_type := def_type nd, b_text := rest,
                         b_chars := drop (length p) (map strip_decorator (b_chars b))\<rparr> # post
           \<and> es_selection es' = create_selection_with_selection (es_selection es)
                                  (- int (length p)) (- int (length p))
           \<and> undo_stack es' = undo_stack es"
proof -
  let ?m = "\<lparr>m_index = 0, m_whole = p, m_group1 = None\<rparr>"
  have l: "length (b_chars b) = length (b_text b)"
    using wf bs by (simp add: wf_content_def wf_block_def)
  have "promoted_block b nd ?m
        = b\<lparr>b_type := def_type nd, b_text := rest,
            b_chars := drop (length p) (map strip_decorator (b_chars b))\<rparr>"
    using promoted_block_at_start [of ?m b "[]" nd] st l tx by (simp add: match_prefix_def)
  moreover have "convert_block_type es prev = Some (perform_un_undoable_edits es
                  (\<lambda>d. force_selection (push d (current_content es\<lparr>blocks := pre @ promoted_block b nd ?m # post,
                                                 sel_after := create_selection_with_block b\<rparr>) ChangeBlockType)
                     (create_selection_with_selection (es_selection es) (- int (length p)) (- int (length p)))))"
    using convert_single_promote [OF bs wf k pb _ _ _ _, of nd ?m] mb tx ty st lc
    by (simp add: promote_adjust_def match_prefix_def)
  ultimately show ?thesis by simp
qed

text \<open>
  A demotion of a single changed header: its text no longer matches any definition while
  its previous text matched its own; the block becomes unstyled and loses the decorator
  style, and the caret stays.
\<close>

lemma convert_one_demote:
  assumes pb: "get_block_for_key pc (b_key b) = Some pb" "pb \<noteq> b" and ct: "ct \<noteq> Some DeleteCharacter"
    and reg: "blocks_registry (b_type b) = Some d" "def_expandable d" and ty: "b_type b \<noteq> Unstyled"
    and mb: "match_block (b_text b) = None" and own: "prev_matched_own (Some d) (b_text pb)"
    and b: "get_block_for_key c (b_key b) = Some b" and dist: "distinct (block_keys c)"
    and l: "length (b_chars b) = length (b_text b)"
  shows "convert_one pc ct (c, adj) b
         = Some (c\<lparr>blocks := replace_block (demoted_block b) (blocks c),
                   sel_after := create_selection_with_block b\<rparr>, adj)"
  using pb ct reg ty mb own
  by (simp add: convert_one_def retype_block_def convert_by_pattern_def demote_block_eq [OF b dist l])

lemma convert_single_demote:
  assumes bs: "blocks (current_content es) = pre @ b # post"
    and wf: "wf_content (current_content es)"
    and k: "start_key (es_selection es) = b_key b" "end_key (es_selection es) = b_key b"
           "start_key (es_selection prev) = b_key b"
    and pb: "get_block_for_key (current_content prev) (b_key b) = Some pb" "pb \<noteq> b"
    and lc: "last_change es \<noteq> Some DeleteCharacter" "last_change es \<noteq> Some SplitBlock"
    and reg: "blocks_registry (b_type b) = Some d" "def_expandable d" and ty: "b_type b \<noteq> Unstyled"
    and mb: "match_block (b_text b) = None" and own: "prev_matched_own (Some d) (b_text pb)"
  shows "convert_block_type es prev
         = Some (perform_un_undoable_edits es
                  (\<lambda>d. force_selection
                     (push d (current_content es\<lparr>blocks := pre @ demoted_block b # post,
                                                 sel_after := create_selection_with_block b\<rparr>)
                        ChangeBlockType)
                     (es_selection es)))"
proof -
  let ?c = "current_content es"
  let ?c' = "?c\<lparr>blocks := pre @ demoted_block b # post, sel_after := create_selection_with_block b\<rparr>"
  have dist: "distinct (block_keys ?c)" using wf by (simp add: wf_content_def)
  then have b: "get_block_for_key ?c (b_key b) = Some b"
    using bs by (simp add: get_block_for_key_def block_keys_def find_key_split)
  have l: "length (b_chars b) = length (b_text b)"
    using get_block_wf [OF b wf] by (simp add: wf_block_def)
  have ch: "?c \<noteq> current_content prev" using pb b by auto
  have one: "convert_one (current_content prev) (last_change es) (?c, \<lambda>_. 0) b = Some (?c', \<lambda>_. 0)"
    using convert_one_demote [OF pb lc(1) reg ty mb own b dist l, of "\<lambda>_. 0"] bs dist
    by (simp add: replace_block_split block_keys_def demoted_block_def)
  have "b_type (demoted_block b) \<noteq> b_type b" using ty by (simp add: demoted_block_def)
  then have "demoted_block b \<noteq> b" by metis
  then have "blocks ?c' \<noteq> blocks ?c" using bs by simp
  then have ne: "?c' \<noteq> ?c" by metis
  show ?thesis
    using convert_block_type_single [OF bs dist k ch lc(2)] one ne by simp
qed

section \<open>Keys, totality and well-formedness along the fold\<close>

lemma remove_decorator_keys:
  "b_key b \<in> set (block_keys c) \<Longrightarrow> distinct (block_keys c) \<Longrightarrow>
   \<exists>c'. remove_inline_style c (create_selection_with_block b) decorator = Some c'
        \<and> block_keys c' = block_keys c"
  using modify_blocks_block [of c "b_key b" _ "create_selection_with_block b"
      "\<lambda>r x. x\<lparr>b_chars := map_chars_in (\<lambda>m. m\<lparr>cm_style := removeAll decorator (cm_style m)\<rparr>) r (b_chars x)\<rparr>"]
    get_block_for_key_iff [of c "b_key b"]
  by (fastforce simp: remove_inline_style_def modify_chars_def)

lemma promote_block_keys:
  assumes "b_key b \<in> set (block_keys c)" "distinct (block_keys c)"
  shows "\<exists>c'. promote_block c b nd m = Some c' \<and> block_keys c' = block_keys c"
proof -
  obtain c1 where c1: "remove_inline_style c (create_selection_with_block b) decorator = Some c1"
    "block_keys c1 = block_keys c" using remove_decorator_keys [OF assms] by blast
  obtain c2 where c2: "replace_text c1 (create_selection_with_range (b_key b) (int (m_index m))
                         (int (length (match_prefix m))))
                         (if def_expandable nd then match_prefix m else []) [decorator] = Some c2"
    "block_keys c2 = block_keys c" using replace_text_keys [of "b_key b" c1] assms c1(2) by fastforce
  obtain c3 where "set_block_type c2 (create_selection_with_block b) (def_type nd) = Some c3"
    "block_keys c3 = block_keys c" using set_block_type_keys [of b c2] assms c2(2) by fastforce
  with c1 c2 show ?thesis by (simp add: promote_block_def)
qed

lemma demote_block_keys:
  assumes "b_key b \<in> set (block_keys c)" "distinct (block_keys c)"
  shows "\<exists>c'. demote_block c b = Some c' \<and> block_keys c' = block_keys c"
proof -
  obtain c1 where c1: "set_block_type c (create_selection_with_block b) Unstyled = Some c1"
    "block_keys c1 = block_keys c" using set_block_type_keys [OF assms] by blast
  obtain c2 where "remove_inline_style c1 (create_selection_with_block b) decorator = Some c2"
    "block_keys c2 = block_keys c" using remove_decorator_keys [of b c1] assms c1(2) by fastforce
  with c1 show ?thesis by (simp add: demote_block_def)
qed


lemma convert_by_pattern_keys:
  assumes "b_key b \<in> set (block_keys c)" "distinct (block_keys c)"
  shows "\<exists>c' adj'. convert_by_pattern c adj b pb cd = Some (c', adj') \<and> block_keys c' = block_keys c"
proof (cases "match_block (b_text b)")
  case None
  then show ?thesis using demote_block_keys [OF assms] by (auto simp: convert_by_pattern_def)
next
  case (Some r)
  then show ?thesis
    using promote_block_keys [OF assms, of "fst r" "snd r"]
    by (cases r) (auto simp: convert_by_pattern_def)
qed

lemma retype_block_keys:
  assumes "b_key b \<in> set (block_keys c)" "distinct (block_keys c)"
  shows "\<exists>c' adj'. retype_block c adj b pb = Some (c', adj') \<and> block_keys c' = block_keys c"
  using set_block_type_keys [OF assms, of Unstyled] convert_by_pattern_keys [OF assms]
  by (auto simp: retype_block_def split: option.split)

lemma convert_one_keys:
  assumes "ct \<noteq> Some DeleteCharacter" "b_key b \<in> set (block_keys c)" "distinct (block_keys c)"
  shows "\<exists>c' adj'. convert_one pc ct (c, adj) b = Some (c', adj') \<and> block_keys c' = block_keys c"
  using retype_block_keys [OF assms(2,3)] assms(1)
  by (auto simp: convert_one_def split: option.split)

lemma convert_blocks_keys:
  "ct \<noteq> Some DeleteCharacter \<Longrightarrow> b_key ` set bs \<subseteq> set (block_keys c) \<Longrightarrow> distinct (block_keys c) \<Longrightarrow>
   \<exists>c' adj'. convert_blocks pc ct (c, adj) bs = Some (c', adj') \<and> block_keys c' = block_keys c"
proof (induction bs arbitrary: c adj)
  case Nil
  then show ?case by simp
next
  case (Cons b bs)
  obtain c1 adj1 where c1: "convert_one pc ct (c, adj) b = Some (c1, adj1)" "block_keys c1 = block_keys c"
    using convert_one_keys [of ct b c pc adj] Cons.prems by auto
  then obtain c2 adj2 where "convert_blocks pc ct (c1, adj1) bs = Some (c2, adj2)" "block_keys c2 = block_keys c1"
    using Cons.IH [of c1 adj1] Cons.prems by auto
  with c1 show ?case by simp
qed


lemma visited_blocks_keys: "b_key ` set (visited_blocks c s ps) \<subseteq> set (block_keys c)"
  using set_take_until set_skip_until by (fastforce simp: visited_blocks_def block_keys_def)

lemma promote_block_wf [wf_simps]:
  "promote_block c b nd m = Some c' \<Longrightarrow> wf_content c \<Longrightarrow> wf_content c'"
  by (auto simp: promote_block_def bind_eq_Some_conv)
     (meson remove_inline_style_wf replace_text_wf set_block_type_wf)

lemma demote_block_wf [wf_simps]:
  "demote_block c b = Some c' \<Longrightarrow> wf_content c \<Longrightarrow> wf_content c'"
  by (auto simp: demote_block_def bind_eq_Some_conv) (meson remove_inline_style_wf set_block_type_wf)

lemma convert_one_wf [wf_simps]:
  "convert_one pc ct (c, adj) b = Some (c', adj') \<Longrightarrow> wf_content c \<Longrightarrow> wf_content c'"
  by (auto simp: convert_one_def retype_block_def convert_by_pattern_def bind_eq_Some_conv
           split: option.splits if_splits intro: promote_block_wf demote_block_wf set_block_type_wf)

lemma convert_blocks_wf [wf_simps]:
  "convert_blocks pc ct (c, adj) bs = Some (c', adj') \<Longrightarrow> wf_content c \<Longrightarrow> wf_content c'"
proof (induction bs arbitrary: c adj)
  case Nil
  then show ?case by simp
next
  case (Cons b bs)
  then obtain c1 adj1 where "convert_one pc ct (c, adj) b = Some (c1, adj1)"
    and "convert_blocks pc ct (c1, adj1) bs = Some (c', adj')"
    by (auto simp: bind_eq_Some_conv)
  with Cons show ?case by (blast intro: convert_one_wf)
qed

lemma complete_list_wf [wf_simps]:
  "complete_list prev es = Some es' \<Longrightarrow> wf_content (current_content es) \<Longrightarrow> wf_content (current_content es')"
  by (auto simp: complete_list_def bind_eq_Some_conv Let_def) (meson remove_range_wf set_block_type_wf)



lemma convert_blocks_locked:
  "\<forall>b \<in> set bs. b_type b \<in> {Blockquote, UnorderedListItem, OrderedListItem}
                \<and> get_block_for_key pc (b_key b) \<noteq> None \<Longrightarrow>
   ct \<noteq> Some DeleteCharacter \<Longrightarrow> convert_blocks pc ct acc bs = Some acc"
  by (induction bs) (auto simp: convert_one_def retype_block_def split: prod.split)


section \<open>Properties of the convert step\<close>

text \<open>
  C2: Header promotion.  Typing the space after \<open>n\<close> hashes (\<open>1 \<le> n \<le> 6\<close>) at the start of
  an unstyled block, inside that block, converts it to the \<open>n\<close>-th header: the text stays,
  the hashes carry the decorator style and nothing else does, the rest of the document, the
  caret and the undo history are unchanged.
\<close>

lemma convert_header_promotion:
  assumes bs: "blocks (current_content es) = pre @ b # post"
    and wf: "wf_content (current_content es)"
    and ty: "b_type b = Unstyled"
    and tx: "b_text b = replicate n CHR ''#'' @ CHR '' '' # rest" and n: "1 \<le> n" "n \<le> 6"
    and k: "start_key (es_selection es) = b_key b" "end_key (es_selection es) = b_key b"
           "start_key (es_selection prev) = b_key b"
    and pb: "get_block_for_key (current_content prev) (b_key b) \<noteq> Some b"
    and lc: "last_change es = Some InsertCharacters"
  shows "\<exists>es'. convert_block_type es prev = Some es'
           \<and> blocks (current_content es')
               = pre @ b\<lparr>b_type := def_type (block_values ! (n - 1)),
                         b_chars := replicate n \<lparr>cm_style = [decorator], cm_entity = None\<rparr>
                                    @ drop n (map strip_decorator (b_chars b))\<rparr> # post
           \<and> es_selection es' = es_selection es \<and> undo_stack es' = undo_stack es"
proof -
  let ?nd = "block_values ! (n - 1)"
  let ?m = "\<lparr>m_index = 0, m_whole = replicate n CHR ''#'' @ '' '', m_group1 = Some (replicate n CHR ''#'')\<rparr>"
  have mp: "match_prefix ?m = replicate n CHR ''#''" using n by (simp add: match_prefix_def)
  have hv: "def_expandable ?nd" "def_type ?nd \<noteq> Unstyled" using header_values [OF n] by simp_all
  have l: "length (b_chars b) = length (b_text b)"
    using wf bs by (simp add: wf_content_def wf_block_def)
  have "promoted_block b ?nd ?m
        = b\<lparr>b_type := def_type ?nd,
            b_chars := replicate n \<lparr>cm_style = [decorator], cm_entity = None\<rparr>
                       @ drop n (map strip_decorator (b_chars b))\<rparr>"
    using promoted_block_at_start [of ?m b "replicate n CHR ''#''" ?nd] mp hv l tx by simp
  moreover have "convert_block_type es prev = Some (perform_un_undoable_edits es
                  (\<lambda>d. force_selection (push d (current_content es\<lparr>blocks := pre @ promoted_block b ?nd ?m # post,
                                                 sel_after := create_selection_with_block b\<rparr>) ChangeBlockType)
                     (es_selection es)))"
    using convert_single_promote [OF bs wf k pb _ _ _ _, of ?nd ?m] match_block_header [OF n, of rest]
      tx ty hv lc by (simp add: promote_adjust_def)
  ultimately show ?thesis by simp
qed

text \<open>
  C4: Quote and bullet promotion.  Typing \<open>"> "\<close> or \<open>"- "\<close> at the start of an unstyled
  block converts it to a quote or bulleted item and removes the two prefix characters; the
  caret moves two characters left, whatever its offset was.
\<close>

lemma convert_quote_promotion:
  assumes bs: "blocks (current_content es) = pre @ b # post"
    and wf: "wf_content (current_content es)"
    and ty: "b_type b = Unstyled"
    and pt: "(p, t) \<in> {(''> '', Blockquote), (''- '', UnorderedListItem)}"
    and tx: "b_text b = p @ rest"
    and k: "start_key (es_selection es) = b_key b" "end_key (es_selection es) = b_key b"
           "start_key (es_selection prev) = b_key b"
    and pb: "get_block_for_key (current_content prev) (b_key b) \<noteq> Some b"
    and lc: "last_change es = Some InsertCharacters"
  shows "\<exists>es'. convert_block_type es prev = Some es'
           \<and> blocks (current_content es')
               = pre @ b\<lparr>b_type := t, b_text := rest,
                         b_chars := drop 2 (map strip_decorator (b_chars b))\<rparr> # post
           \<and> anchor_offset (es_selection es') = anchor_offset (es_selection es) - 2
           \<and> focus_offset (es_selection es') = focus_offset (es_selection es) - 2
           \<and> undo_stack es' = undo_stack es"
proof -
  from pt consider "p = ''> ''" "t = Blockquote" | "p = ''- ''" "t = UnorderedListItem" by auto
  then show ?thesis
  proof cases
    case 1
    then show ?thesis
      using convert_static_prefix [OF bs wf ty tx _ _ _ k pb lc, of "block_values ! 6"] match_block_quote
      by (fastforce simp: block_values_def create_selection_with_selection_def numeral_2_eq_2)
  next
    case 2
    then show ?thesis
      using convert_static_prefix [OF bs wf ty tx _ _ _ k pb lc, of "block_values ! 7"] match_block_bullet
      by (fastforce simp: block_values_def create_selection_with_selection_def numeral_2_eq_2)
  qed
qed

text \<open>
  C3: List exit.  Pressing Enter in an empty list item (a block split with collapsed
  selections) removes the new block again, makes the item unstyled and puts the caret at its
  start; the undo history is unchanged.
\<close>

lemma convert_list_exit:
  assumes pbs: "blocks (current_content prev) = pre @ bk # post"
    and bs: "blocks (current_content es) = pre @ bk # bn # post"
    and wf: "wf_content (current_content es)"
    and ty: "b_type bk \<in> {UnorderedListItem, OrderedListItem}"
    and e: "b_text bk = []" "b_text bn = []"
    and sel: "es_selection es = collapsed_at (b_key bn) 0" "es_selection prev = collapsed_at (b_key bk) 0"
    and lc: "last_change es = Some SplitBlock"
  shows "\<exists>es'. convert_block_type es prev = Some es'
           \<and> blocks (current_content es') = pre @ bk\<lparr>b_type := Unstyled\<rparr> # post
           \<and> es_selection es' = collapsed_at (b_key bk) 0 \<and> undo_stack es' = undo_stack es"
proof -
  let ?c = "current_content es"
  let ?c1 = "?c\<lparr>blocks := pre @ bk # post, sel_after := collapsed_at (b_key bk) 0\<rparr>"
  let ?c2 = "?c1\<lparr>blocks := pre @ bk\<lparr>b_type := Unstyled\<rparr> # post, sel_after := create_selection_with_block bk\<rparr>"
  have d: "distinct (block_keys ?c)" using wf by (simp add: wf_content_def)
  then have dk: "distinct (map b_key (pre @ bk # bn # post))" using bs by (simp add: block_keys_def)
  then have dk1: "distinct (map b_key (pre @ bk # post))" by auto
  have gp: "get_block_for_key (current_content prev) (b_key bk) = Some bk"
    using dk1 pbs by (simp add: get_block_for_key_def find_key_split)
  have g: "get_block_for_key ?c (b_key bk) = Some bk"
    using dk bs by (simp add: get_block_for_key_def find_key_split)
  have gn: "get_block_for_key ?c (b_key bn) = Some bn"
    using dk bs find_key_split [of "pre @ [bk]" bn post] by (simp add: get_block_for_key_def)
  have "wf_block (length (entity_map ?c)) bk" "wf_block (length (entity_map ?c)) bn"
    using get_block_wf [OF g wf] get_block_wf [OF gn wf] by simp_all
  then have "b_chars bk = []" "b_chars bn = []" using e by (simp_all add: wf_block_def)
  then have j: "join_blocks bk bn 0 0 = bk" using e by (simp add: join_blocks_def)
  have ch: "?c \<noteq> current_content prev" using pbs bs by auto
  have dcl: "did_complete_list prev es = Some True"
    using lc sel gp ty e by (auto simp: did_complete_list_def selection_defs)
  have rr: "remove_range ?c \<lparr>anchor_key = b_key bk, anchor_offset = 0, focus_key = b_key bn,
                           focus_offset = 0, is_backward = False\<rparr> = Some ?c1"
    using remove_range_next_block [OF bs d] j by simp
  have g1: "get_block_for_key ?c1 (b_key bk) = Some bk"
    using dk1 by (simp add: get_block_for_key_def find_key_split)
  have "set_block_type ?c1 (create_selection_with_block bk) Unstyled = Some ?c2"
    using set_block_type_block [OF g1, of Unstyled] dk1 replace_block_split [OF dk1, of "bk\<lparr>b_type := Unstyled\<rparr>"]
    by (simp add: block_keys_def)
  then have "convert_block_type es prev = Some (perform_un_undoable_edits es
               (\<lambda>d. force_selection (push d ?c2 ChangeBlockType) (create_selection_with_block bk)))"
    using ch dcl g gn rr sel by (simp add: convert_block_type_def complete_list_def selection_defs)
  moreover have "create_selection_with_block bk = collapsed_at (b_key bk) 0"
    using e by (simp add: create_selection_with_block_def)
  ultimately show ?thesis by simp
qed

text \<open>
  C6: Header demotion.  A header whose text no longer matches any definition (the space after
  the hashes was deleted) while its previous text matched its own header pattern becomes an
  unstyled block without decorator style; text and caret stay.
\<close>

lemma convert_header_demotion:
  assumes bs: "blocks (current_content es) = pre @ b # post"
    and wf: "wf_content (current_content es)"
    and n: "1 \<le> n" "n \<le> 6" and ty: "b_type b = def_type (block_values ! (n - 1))"
    and pb: "get_block_for_key (current_content prev) (b_key b) = Some pb"
    and ptx: "b_text pb = replicate n CHR ''#'' @ CHR '' '' # r"
    and mb: "match_block (b_text b) = None"
    and k: "start_key (es_selection es) = b_key b" "end_key (es_selection es) = b_key b"
           "start_key (es_selection prev) = b_key b"
    and lc: "last_change es = Some BackspaceCharacter"
  shows "\<exists>es'. convert_block_type es prev = Some es'
           \<and> blocks (current_content es') = pre @ demoted_block b # post
           \<and> es_selection es' = es_selection es \<and> undo_stack es' = undo_stack es"
proof -
  let ?d = "block_values ! (n - 1)"
  have own: "prev_matched_own (Some ?d) (b_text pb)"
    using match_block_header [OF n, of r] ptx by (simp add: prev_matched_own_def)
  have "pb \<noteq> b" using mb match_block_header [OF n, of r] ptx by auto
  then show ?thesis
    using convert_single_demote [OF bs wf k pb _ _ _ _ _ _ mb own] header_registry [OF n]
      header_values [OF n] ty lc by simp
qed

text \<open>
  C5: Locked blocks.  When every block the step visits is a quote or list item that existed
  before the change, the step returns the editor state unchanged, whatever the text now is
  (a quote containing \<open>"# "\<close> does not become a header).
\<close>

lemma convert_locked_blocks:
  assumes "\<forall>b \<in> set (visited_blocks (current_content es) (es_selection es) (es_selection prev)).
             b_type b \<in> {Blockquote, UnorderedListItem, OrderedListItem}
             \<and> get_block_for_key (current_content prev) (b_key b) \<noteq> None"
    and "last_change es \<noteq> Some DeleteCharacter" "last_change es \<noteq> Some SplitBlock"
  shows "convert_block_type es prev = Some es"
  using convert_blocks_locked [OF assms(1,2)] assms(3)
  by (simp add: convert_block_type_def did_complete_list_def Let_def)


text \<open>
  C8: The convert step never fails on a document with distinct keys, unless the change was a
  forward delete (which reads the block after an emptied block) or a block split (which
  reads the split blocks back).
\<close>

lemma convert_block_type_total:
  assumes "distinct (block_keys (current_content es))"
    and "last_change es \<noteq> Some DeleteCharacter" "last_change es \<noteq> Some SplitBlock"
  shows "\<exists>es'. convert_block_type es prev = Some es'"
proof -
  obtain c' adj' where "convert_blocks (current_content prev) (last_change es) (current_content es, \<lambda>_. 0)
      (visited_blocks (current_content es) (es_selection es) (es_selection prev)) = Some (c', adj')"
    using convert_blocks_keys [OF assms(2) visited_blocks_keys assms(1)] by blast
  then show ?thesis
    using assms(3) by (simp add: convert_block_type_def did_complete_list_def Let_def)
qed


section \<open>Witnesses and counterexamples\<close>

text \<open>The definitions that evaluate the invariant and the block lookups on sample documents.\<close>

lemmas sample_simps = wf_content_def wf_block_def wf_meta_def block_keys_def get_block_for_key_def
  selection_defs block_values_def header_definition_def strip_decorator_def demoted_block_def

lemma convert_header_promotion_witness:
  "\<exists>es'. convert_block_type
           ((plain_state [plain_block 1 Unstyled ''# ''] (collapsed_at 1 2))\<lparr>last_change := Some InsertCharacters\<rparr>)
           (plain_state [plain_block 1 Unstyled ''#''] (collapsed_at 1 1)) = Some es'
     \<and> blocks (current_content es')
         = [\<lparr>b_key = 1, b_type = HeaderOne, b_text = ''# '',
             b_chars = [\<lparr>cm_style = [decorator], cm_entity = None\<rparr>, \<lparr>cm_style = [], cm_entity = None\<rparr>]\<rparr>]
     \<and> es_selection es' = collapsed_at 1 2"
  using convert_header_promotion
    [where es = "(plain_state [plain_block 1 Unstyled ''# ''] (collapsed_at 1 2))\<lparr>last_change := Some InsertCharacters\<rparr>"
       and prev = "plain_state [plain_block 1 Unstyled ''#''] (collapsed_at 1 1)"
       and pre = "[]" and post = "[]" and b = "plain_block 1 Unstyled ''# ''" and n = 1 and rest = "[]"]
  by (simp add: sample_simps) blast


lemma convert_quote_promotion_witness:
  "\<exists>es'. convert_block_type
           ((plain_state [plain_block 1 Unstyled ''> x''] (collapsed_at 1 2))\<lparr>last_change := Some InsertCharacters\<rparr>)
           (plain_state [plain_block 1 Unstyled ''>x''] (collapsed_at 1 1)) = Some es'
     \<and> blocks (current_content es') = [plain_block 1 Blockquote ''x'']
     \<and> anchor_offset (es_selection es') = 0 \<and> focus_offset (es_selection es') = 0"
  using convert_quote_promotion
    [where es = "(plain_state [plain_block 1 Unstyled ''> x''] (collapsed_at 1 2))\<lparr>last_change := Some InsertCharacters\<rparr>"
       and prev = "plain_state [plain_block 1 Unstyled ''>x''] (collapsed_at 1 1)"
       and pre = "[]" and post = "[]" and b = "plain_block 1 Unstyled ''> x''" and p = "''> ''"
       and t = Blockquote and rest = "''x''"]
  by (simp add: sample_simps) blast

lemma convert_list_exit_witness:
  "\<exists>es'. convert_block_type
           ((plain_state [plain_block 1 UnorderedListItem [], plain_block 2 UnorderedListItem []]
              (collapsed_at 2 0))\<lparr>last_change := Some SplitBlock\<rparr>)
           (plain_state [plain_block 1 UnorderedListItem []] (collapsed_at 1 0)) = Some es'
     \<and> blocks (current_content es') = [plain_block 1 Unstyled []]
     \<and> es_selection es' = collapsed_at 1 0"
  using convert_list_exit
    [where es = "(plain_state [plain_block 1 UnorderedListItem [], plain_block 2 UnorderedListItem []]
                    (collapsed_at 2 0))\<lparr>last_change := Some SplitBlock\<rparr>"
       and prev = "plain_state [plain_block 1 UnorderedListItem []] (collapsed_at 1 0)"
       and pre = "[]" and post = "[]" and bk = "plain_block 1 UnorderedListItem []"
       and bn = "plain_block 2 UnorderedListItem []"]
  by (simp add: sample_simps) blast

lemma convert_header_demotion_witness:
  "\<exists>es'. convert_block_type
           ((plain_state [plain_block 1 HeaderOne ''#Title''] (collapsed_at 1 1))\<lparr>last_change := Some BackspaceCharacter\<rparr>)
           (plain_state [plain_block 1 HeaderOne ''# Title''] (collapsed_at 1 2)) = Some es'
     \<and> blocks (current_content es') = [plain_block 1 Unstyled ''#Title'']
     \<and> es_selection es' = collapsed_at 1 1"
proof -
  have "match_block ''#Title'' = None" by code_simp
  then show ?thesis
    using convert_header_demotion
      [where es = "(plain_state [plain_block 1 HeaderOne ''#Title''] (collapsed_at 1 1))\<lparr>last_change := Some BackspaceCharacter\<rparr>"
         and prev = "plain_state [plain_block 1 HeaderOne ''# Title''] (collapsed_at 1 2)"
         and pre = "[]" and post = "[]" and b = "plain_block 1 HeaderOne ''#Title''" and n = 1
         and pb = "plain_block 1 HeaderOne ''# Title''" and r = "''Title''"]
    by (simp add: sample_simps) blast
qed

lemma convert_locked_blocks_witness:
  "convert_block_type
     ((plain_state [plain_block 1 Blockquote ''> # text''] (collapsed_at 1 8))\<lparr>last_change := Some InsertCharacters\<rparr>)
     (plain_state [plain_block 1 Blockquote ''> # tex''] (collapsed_at 1 7))
   = Some ((plain_state [plain_block 1 Blockquote ''> # text''] (collapsed_at 1 8))\<lparr>last_change := Some InsertCharacters\<rparr>)"
  using convert_locked_blocks
    [where es = "(plain_state [plain_block 1 Blockquote ''> # text''] (collapsed_at 1 8))\<lparr>last_change := Some InsertCharacters\<rparr>"
       and prev = "plain_state [plain_block 1 Blockquote ''> # tex''] (collapsed_at 1 7)"]
  by (simp add: sample_simps visited_blocks_def get_block_after_def)


lemma convert_block_type_total_witness:
  "\<exists>es'. convert_block_type
           ((plain_state [plain_block 1 Unstyled ''ab''] (collapsed_at 1 2))\<lparr>last_change := Some InsertCharacters\<rparr>)
           (plain_state [plain_block 1 Unstyled ''a''] (collapsed_at 1 1)) = Some es'"
  using convert_block_type_total
    [where es = "(plain_state [plain_block 1 Unstyled ''ab''] (collapsed_at 1 2))\<lparr>last_change := Some InsertCharacters\<rparr>"
       and prev = "plain_state [plain_block 1 Unstyled ''a''] (collapsed_at 1 1)"]
  by (simp add: sample_simps)


section \<open>Conversions that go wrong\<close>




end
