(* ===== verification/Dependent_Edits.thy ===== *)
theory Dependent_Edits
  imports Draft_Utils
begin

text \<open>
  The Position-Adjusted Edit Compiler (spec 4.1): \<open>performDependentEdits\<close> of
  \<open>src/app/utils/draftUtils.ts\<close>.  Edits name offsets of the text as it was before the
  batch; per block the compiler keeps two sparse arrays counting the characters inserted
  and deleted at each original offset, and rebases every later edit by the sums of the
  counts up to its offset.  The theory proves that a batch of insertions into one block
  implements the declarative specification \<open>weave\<close> (each insertion lands at its
  original offset, after everything inserted earlier at the same or a smaller offset), that
  the batch always succeeds on an existing block, where a selection edit puts the caret
  (\<open>leading\<close> before, \<open>trailing\<close> after the text inserted at its offset), and that
  undo-bypassing insertions leave the undo history alone.
\<close>

section \<open>Edits\<close>

datatype adjustment = Leading | Trailing

datatype edit =
    Insertion (ie_text: string) (ie_block: block_key) (ie_offset: nat)
      (ie_deletion: "nat option") (ie_style: "style option") (ie_disable_undo: bool)
  | SelectionEdit (se_anchor_key: block_key) (se_anchor_offset: nat)
      (se_focus_key: block_key) (se_focus_offset: nat) (se_backward: bool)
      (se_adjust_focus: "adjustment option") (se_adjust_anchor: "adjustment option")

type_synonym counters = "block_key \<Rightarrow> counter_array"

record edit_state =
  eds_editor :: editor_state
  eds_insertions :: counters
  eds_deletions :: counters

text \<open>\<open>adjust === 'leading' ? 0 : 1\<close>: an absent adjustment is trailing.\<close>

fun adjustment_amount :: "adjustment option \<Rightarrow> nat" where
  "adjustment_amount (Some Leading) = 0"
| "adjustment_amount _ = 1"

definition offset_delta :: "counters \<Rightarrow> counters \<Rightarrow> block_key \<Rightarrow> nat \<Rightarrow> int" where
  "offset_delta ins del k n = int (prefix_sum (ins k) n) - int (prefix_sum (del k) n)"

fun perform_edit :: "edit_state \<Rightarrow> edit \<Rightarrow> edit_state option" where
  "perform_edit st (Insertion txt k off dl sty du) =
     (let es = eds_editor st; ins = eds_insertions st; del = eds_deletions st;
          d = (case dl of None \<Rightarrow> 0 | Some n \<Rightarrow> n);
          insert_offset = int off + offset_delta ins del k (Suc off);
          ins' = ins(k := bump (ins k) off (length txt));
          del' = del(k := bump (del k) off d);
          ct = (if txt \<noteq> [] then InsertCharacters else RemoveRange)
      in do {
        nc \<leftarrow> replace_text (current_content es)
                (create_selection_with_range k insert_offset (insert_offset + int d)) txt
                (case sty of None \<Rightarrow> [] | Some s \<Rightarrow> s);
        Some \<lparr>eds_editor = (if du then perform_un_undoable_edits es (\<lambda>d. push d nc ct)
                             else push es nc ct),
              eds_insertions = ins', eds_deletions = del'\<rparr>
      })"
| "perform_edit st (SelectionEdit ak ao fk fo bw adj_focus adj_anchor) =
     (let ins = eds_insertions st; del = eds_deletions st;
          anchor_delta = offset_delta ins del ak (ao + adjustment_amount adj_anchor);
          focus_delta = offset_delta ins del fk (fo + adjustment_amount adj_focus)
      in Some (st\<lparr>eds_editor := force_selection (eds_editor st)
                   \<lparr>anchor_key = ak, anchor_offset = int ao + anchor_delta,
                    focus_key = fk, focus_offset = int fo + focus_delta, is_backward = bw\<rparr>\<rparr>))"

fun run_edits :: "edit_state \<Rightarrow> edit list \<Rightarrow> edit_state option" where
  "run_edits st [] = Some st"
| "run_edits st (e # es) = perform_edit st e \<bind> (\<lambda>st'. run_edits st' es)"

definition perform_dependent_edits :: "editor_state \<Rightarrow> edit list \<Rightarrow> editor_state option" where
  "perform_dependent_edits es edits =
     map_option eds_editor
       (run_edits \<lparr>eds_editor = es, eds_insertions = (\<lambda>_ _. 0), eds_deletions = (\<lambda>_ _. 0)\<rparr> edits)"

section \<open>The declarative specification\<close>

text \<open>
  \<open>weave g t\<close> is the text \<open>t\<close> with the string \<open>g i\<close> placed before its \<open>i\<close>-th
  character (and \<open>g (length t)\<close> at its end); \<open>add_groups\<close> appends each insertion's
  text to the group of its original offset, in list order.
\<close>

fun weave_from :: "(nat \<Rightarrow> string) \<Rightarrow> nat \<Rightarrow> string \<Rightarrow> string" where
  "weave_from g i [] = g i"
| "weave_from g i (c # cs) = g i @ c # weave_from g (Suc i) cs"

definition weave :: "(nat \<Rightarrow> string) \<Rightarrow> string \<Rightarrow> string" where
  "weave g t = weave_from g 0 t"

fun add_groups :: "(nat \<Rightarrow> string) \<Rightarrow> edit list \<Rightarrow> nat \<Rightarrow> string" where
  "add_groups g [] = g"
| "add_groups g (Insertion txt k off dl sty du # es) = add_groups (g(off := g off @ txt)) es"
| "add_groups g (SelectionEdit ak ao fk fo bw af aa # es) = add_groups g es"

text \<open>An insertion into block \<open>k\<close> at an offset of its original text, deleting nothing.\<close>

fun plain_insertion :: "block_key \<Rightarrow> nat \<Rightarrow> edit \<Rightarrow> bool" where
  "plain_insertion k n (Insertion txt k' off dl sty du) \<longleftrightarrow> k' = k \<and> off \<le> n \<and> dl \<in> {None, Some 0}"
| "plain_insertion k n (SelectionEdit ak ao fk fo bw af aa) \<longleftrightarrow> False"

section \<open>Lemmas on weaving\<close>

lemma weave_from_Nil_groups [simp]: "weave_from (\<lambda>_. []) i t = t"
  by (induction t arbitrary: i) simp_all

lemma weave_from_cong:
  "(\<And>j. i \<le> j \<Longrightarrow> g j = h j) \<Longrightarrow> weave_from g i t = weave_from h i t"
  by (induction t arbitrary: i) simp_all

text \<open>
  Appending \<open>x\<close> to the group of offset \<open>i + n\<close> splices \<open>x\<close> into the woven text
  right after the woven prefix of the first \<open>n\<close> characters.
\<close>

lemma weave_from_update_group:
  "n \<le> length t \<Longrightarrow>
   weave_from (g(i + n := g (i + n) @ x)) i t
     = weave_from g i (take n t) @ x @ drop (length (weave_from g i (take n t))) (weave_from g i t)"
proof (induction t arbitrary: i n)
  case Nil
  then show ?case by simp
next
  case (Cons c cs)
  show ?case
  proof (cases n)
    case 0
    have "weave_from (\<lambda>a. if a = i then g i @ x else g a) (Suc i) cs = weave_from g (Suc i) cs"
      by (rule weave_from_cong) simp
    with 0 show ?thesis by simp
  next
    case (Suc m)
    with Cons.prems have "m \<le> length cs" by simp
    from Cons.IH [OF this, of "Suc i"] Suc show ?thesis by simp
  qed
qed

lemma length_weave_from_take:
  "n \<le> length t \<Longrightarrow>
   length (weave_from g i (take n t)) = n + prefix_sum (\<lambda>j. length (g (i + j))) (Suc n)"
proof (induction t arbitrary: i n)
  case Nil
  then show ?case by simp
next
  case (Cons c cs)
  show ?case
  proof (cases n)
    case 0
    then show ?thesis by simp
  next
    case (Suc m)
    with Cons.prems have m: "m \<le> length cs" by simp
    have shift: "prefix_sum (\<lambda>j. f j) (Suc k) = f 0 + prefix_sum (\<lambda>j. f (Suc j)) k" for f :: "nat \<Rightarrow> nat" and k
      by (induction k) simp_all
    from Cons.IH [OF m, of "Suc i"] Suc show ?thesis
      by (simp add: shift [of "\<lambda>j. length (g (i + j))"] del: prefix_sum.simps(2))
  qed
qed

lemma weave_update_group:
  "i \<le> length t \<Longrightarrow>
   weave (g(i := g i @ x)) t = weave g (take i t) @ x @ drop (length (weave g (take i t))) (weave g t)"
  using weave_from_update_group [of i t g 0 x] by (simp add: weave_def)

lemma length_weave_take:
  "i \<le> length t \<Longrightarrow> length (weave g (take i t)) = i + prefix_sum (\<lambda>j. length (g j)) (Suc i)"
  using length_weave_from_take [of i t g 0] by (simp add: weave_def)

lemma weave_take_prefix:
  assumes "i \<le> length t"
  shows "take (length (weave g (take i t))) (weave g t) = weave g (take i t)"
proof -
  have e: "weave g t = weave g (take i t) @ drop (length (weave g (take i t))) (weave g t)"
    using weave_update_group [OF assms, of g "[]"] by simp
  show ?thesis by (subst e) simp
qed

lemma length_weave_take_le:
  assumes "i \<le> length t"
  shows "length (weave g (take i t)) \<le> length (weave g t)"
proof -
  have "weave g t = weave g (take i t) @ drop (length (weave g (take i t))) (weave g t)"
    using weave_update_group [OF assms, of g "[]"] by simp
  then show ?thesis by (metis length_append le_add1)
qed


section \<open>Insertion batches implement the specification\<close>

text \<open>
  The simulation relation: block \<open>k\<close> holds the woven text, the insertion counters of
  \<open>k\<close> are the lengths of the groups, and nothing has been deleted from \<open>k\<close>.
\<close>

definition edits_inv :: "block_key \<Rightarrow> string \<Rightarrow> (nat \<Rightarrow> string) \<Rightarrow> edit_state \<Rightarrow> bool" where
  "edits_inv k t g st \<longleftrightarrow>
     block_text (current_content (eds_editor st)) k = Some (weave g t)
     \<and> eds_insertions st k = (\<lambda>j. length (g j)) \<and> eds_deletions st k = (\<lambda>_. 0)"

lemma editor_content_after_insertion [simp]:
  "current_content (if du then perform_un_undoable_edits es (\<lambda>d. push d c ct) else push es c ct) = c"
  by simp

lemma perform_insertion_inv:
  assumes inv: "edits_inv k t g st" and off: "off \<le> length t" and dl: "dl \<in> {None, Some 0}"
  shows "\<exists>st'. perform_edit st (Insertion str k off dl sty du) = Some st'
                \<and> edits_inv k t (g(off := g off @ str)) st'"
proof -
  let ?W = "weave g t" and ?P = "length (weave g (take off t))"
  have pos: "int off + offset_delta (eds_insertions st) (eds_deletions st) k (Suc off) = int ?P"
    using inv off by (simp add: edits_inv_def offset_delta_def length_weave_take)
  have le: "?P \<le> length ?W"
    using off by (rule length_weave_take_le)
  obtain c' where rt: "replace_text (current_content (eds_editor st)) (collapsed_at k (int ?P)) str
                         (case sty of None \<Rightarrow> [] | Some s \<Rightarrow> s) = Some c'"
    and str': "block_text c' k = Some (take ?P ?W @ str @ drop ?P ?W)"
    using replace_text_collapsed [of "current_content (eds_editor st)" k ?W "int ?P"] inv le
    by (auto simp: edits_inv_def)
  have "weave (g(off := g off @ str)) t = take ?P ?W @ str @ drop ?P ?W"
    using weave_update_group [OF off, of g str] weave_take_prefix [OF off, of g] by simp
  moreover have "bump (\<lambda>j. length (g j)) off (length str) = (\<lambda>j. length ((g(off := g off @ str)) j))"
    by (simp add: bump_def fun_eq_iff)
  moreover have "bump (\<lambda>_. 0) off 0 = (\<lambda>_. 0::nat)"
    by (simp add: bump_def fun_eq_iff)
  ultimately show ?thesis
    using inv dl pos rt str' by (auto simp: edits_inv_def Let_def)
qed

lemma run_insertions_inv:
  assumes "edits_inv k t g st" "list_all (plain_insertion k (length t)) edits"
  shows "\<exists>st'. run_edits st edits = Some st' \<and> edits_inv k t (add_groups g edits) st'"
  using assms
proof (induction edits arbitrary: g st)
  case Nil
  then show ?case by simp
next
  case (Cons e edits)
  then obtain str off dl sty du where e: "e = Insertion str k off dl sty du"
    and off: "off \<le> length t" and dl: "dl \<in> {None, Some 0}"
    by (cases e) auto
  obtain st1 where st1: "perform_edit st (Insertion str k off dl sty du) = Some st1"
    and inv1: "edits_inv k t (g(off := g off @ str)) st1"
    using perform_insertion_inv [OF Cons.prems(1) off dl] by blast
  have "\<exists>st'. run_edits st1 edits = Some st'
                \<and> edits_inv k t (add_groups (g(off := g off @ str)) edits) st'"
    using Cons.IH [OF inv1] Cons.prems(2) by (simp add: fun_upd_def)
  with st1 e show ?case by simp
qed

lemma edits_inv_start:
  "block_text (current_content es) k = Some t \<Longrightarrow>
   edits_inv k t (\<lambda>_. []) \<lparr>eds_editor = es, eds_insertions = (\<lambda>_ _. 0), eds_deletions = (\<lambda>_ _. 0)\<rparr>"
  by (simp add: edits_inv_def weave_def)


lemma run_edits_append:
  "run_edits st (xs @ ys) = run_edits st xs \<bind> (\<lambda>st'. run_edits st' ys)"
  by (induction xs arbitrary: st) simp_all

lemma perform_selection_edit_inv:
  assumes "edits_inv k t g st"
  shows "\<exists>st'. perform_edit st (SelectionEdit k off k off bw adj adj) = Some st'
           \<and> edits_inv k t g st'
           \<and> es_selection (eds_editor st') =
               \<lparr>anchor_key = k, anchor_offset = int off + int (prefix_sum (\<lambda>j. length (g j)) (off + adjustment_amount adj)),
                focus_key = k, focus_offset = int off + int (prefix_sum (\<lambda>j. length (g j)) (off + adjustment_amount adj)),
                is_backward = bw\<rparr>"
  using assms by (simp add: edits_inv_def offset_delta_def)

lemma prefix_sum_adjustment:
  "off \<le> length t \<Longrightarrow>
   int off + int (prefix_sum (\<lambda>j. length (g j)) (off + adjustment_amount adj))
   = int (length (weave g (take off t))) - (if adj = Some Leading then int (length (g off)) else 0)"
  by (cases adj rule: adjustment_amount.cases) (simp_all add: length_weave_take)

lemma perform_edit_wf:
  "perform_edit st e = Some st' \<Longrightarrow> wf_content (current_content (eds_editor st))
   \<Longrightarrow> wf_content (current_content (eds_editor st'))"
  by (cases e) (auto simp: Let_def bind_eq_Some_conv intro: replace_text_wf)

lemma run_edits_wf:
  "run_edits st edits = Some st' \<Longrightarrow> wf_content (current_content (eds_editor st))
   \<Longrightarrow> wf_content (current_content (eds_editor st'))"
  by (induction edits arbitrary: st) (auto simp: bind_eq_Some_conv dest: perform_edit_wf)

fun bypasses_undo :: "edit \<Rightarrow> bool" where
  "bypasses_undo (Insertion str k off dl sty du) = du"
| "bypasses_undo (SelectionEdit ak ao fk fo bw af aa) = True"

lemma perform_edit_undo:
  "perform_edit st e = Some st' \<Longrightarrow> bypasses_undo e
   \<Longrightarrow> undo_stack (eds_editor st') = undo_stack (eds_editor st)"
  by (cases e) (auto simp: Let_def bind_eq_Some_conv)

section \<open>Properties of the edit compiler\<close>

text \<open>
  C1: a batch of insertions into one existing block, given against the block's original
  offsets, always succeeds and leaves in the block exactly the declarative weave: each
  inserted text sits at its original offset, after every text inserted earlier in the
  batch at the same or a smaller offset.
\<close>

theorem perform_dependent_edits_insertions:
  assumes "block_text (current_content es) k = Some t"
    and "list_all (plain_insertion k (length t)) edits"
  shows "\<exists>es'. perform_dependent_edits es edits = Some es'
           \<and> block_text (current_content es') k = Some (weave (add_groups (\<lambda>_. []) edits) t)"
proof -
  obtain st' where "run_edits \<lparr>eds_editor = es, eds_insertions = (\<lambda>_ _. 0), eds_deletions = (\<lambda>_ _. 0)\<rparr> edits = Some st'"
    and "edits_inv k t (add_groups (\<lambda>_. []) edits) st'"
    using run_insertions_inv [OF edits_inv_start [OF assms(1)] assms(2)] by blast
  then show ?thesis
    by (simp add: perform_dependent_edits_def edits_inv_def)
qed

text \<open>
  C9: after such a batch, a collapsed selection edit at original offset \<open>off\<close> puts the
  caret right after the text inserted at \<open>off\<close> (trailing, the default) or right before it
  (leading).
\<close>

theorem perform_dependent_edits_caret:
  assumes "block_text (current_content es) k = Some t"
    and "list_all (plain_insertion k (length t)) edits" and "off \<le> length t"
  shows "\<exists>es'. perform_dependent_edits es (edits @ [SelectionEdit k off k off bw adj adj]) = Some es'
           \<and> block_text (current_content es') k = Some (weave (add_groups (\<lambda>_. []) edits) t)
           \<and> anchor_offset (es_selection es') = focus_offset (es_selection es')
           \<and> anchor_offset (es_selection es') =
               int (length (weave (add_groups (\<lambda>_. []) edits) (take off t)))
               - (if adj = Some Leading then int (length (add_groups (\<lambda>_. []) edits off)) else 0)"
proof -
  let ?g = "add_groups (\<lambda>_. []) edits"
  obtain st1 where st1: "run_edits \<lparr>eds_editor = es, eds_insertions = (\<lambda>_ _. 0), eds_deletions = (\<lambda>_ _. 0)\<rparr> edits = Some st1"
    and inv1: "edits_inv k t ?g st1"
    using run_insertions_inv [OF edits_inv_start [OF assms(1)] assms(2)] by blast
  obtain st2 where st2: "perform_edit st1 (SelectionEdit k off k off bw adj adj) = Some st2"
    and inv2: "edits_inv k t ?g st2"
    and sel: "es_selection (eds_editor st2) =
               \<lparr>anchor_key = k, anchor_offset = int off + int (prefix_sum (\<lambda>j. length (?g j)) (off + adjustment_amount adj)),
                focus_key = k, focus_offset = int off + int (prefix_sum (\<lambda>j. length (?g j)) (off + adjustment_amount adj)),
                is_backward = bw\<rparr>"
    using perform_selection_edit_inv [OF inv1] by blast
  show ?thesis
    using st1 st2 inv2 sel prefix_sum_adjustment [OF assms(3), of ?g adj]
    by (simp add: perform_dependent_edits_def run_edits_append edits_inv_def)
qed

text \<open>
  C11: an insertion into a block that the document does not contain makes the whole batch
  fail (draft-js throws from \<open>Modifier.replaceText\<close>).
\<close>

theorem perform_dependent_edits_missing_block:
  assumes "get_block_for_key (current_content es) k = None"
  shows "perform_dependent_edits es (Insertion str k off dl sty du # rest) = None"
  using assms by (simp add: perform_dependent_edits_def replace_text_def remove_range_def
                            create_selection_with_range_def selection_defs Let_def)


text \<open>
  C12: insertions marked \<open>disableUndo\<close> never add to the undo history, and selection edits
  never touch it.
\<close>

theorem perform_dependent_edits_undo:
  assumes "perform_dependent_edits es edits = Some es'" "list_all bypasses_undo edits"
  shows "undo_stack es' = undo_stack es"
proof -
  have "run_edits st edits = Some st' \<Longrightarrow> list_all bypasses_undo edits
        \<Longrightarrow> undo_stack (eds_editor st') = undo_stack (eds_editor st)" for st st'
    by (induction edits arbitrary: st) (auto simp: bind_eq_Some_conv dest: perform_edit_undo)
  with assms show ?thesis by (auto simp: perform_dependent_edits_def)
qed


section \<open>Witnesses\<close>

text \<open>Spec 8: the insertions \<open>AB\<close> and then \<open>CD\<close>, both at offset 0 of \<open>XY\<close>, give \<open>ABCDXY\<close>.\<close>

theorem perform_dependent_edits_insertions_witness:
  "block_text (current_content (plain_state [plain_block 0 Unstyled ''XY''] (collapsed_at 0 0))) 0 = Some ''XY''
   \<and> list_all (plain_insertion 0 (length ''XY''))
       [Insertion ''AB'' 0 0 None None False, Insertion ''CD'' 0 0 None None False]
   \<and> (\<exists>es'. perform_dependent_edits (plain_state [plain_block 0 Unstyled ''XY''] (collapsed_at 0 0))
                [Insertion ''AB'' 0 0 None None False, Insertion ''CD'' 0 0 None None False] = Some es'
            \<and> block_text (current_content es') 0 = Some ''ABCDXY'')"
  using perform_dependent_edits_insertions
          [of "plain_state [plain_block 0 Unstyled ''XY''] (collapsed_at 0 0)" 0 "''XY''"
              "[Insertion ''AB'' 0 0 None None False, Insertion ''CD'' 0 0 None None False]"]
  by (simp add: block_text_def get_block_for_key_def weave_def)

text \<open>
  Reinserting a header prefix: \<open>#\<close> and then a space at offset 0 of \<open>Title\<close>, with the
  caret at original offset 3, give \<open># Title\<close> with the caret after \<open># Tit\<close>.
\<close>

theorem perform_dependent_edits_caret_witness:
  "block_text (current_content (plain_state [plain_block 0 HeaderOne ''Title''] (collapsed_at 0 3))) 0 = Some ''Title''
   \<and> list_all (plain_insertion 0 (length ''Title''))
       [Insertion ''#'' 0 0 None (Some [''core.block.decorator'']) True, Insertion '' '' 0 0 None None True]
   \<and> 3 \<le> length ''Title''
   \<and> (\<exists>es'. perform_dependent_edits (plain_state [plain_block 0 HeaderOne ''Title''] (collapsed_at 0 3))
                ([Insertion ''#'' 0 0 None (Some [''core.block.decorator'']) True, Insertion '' '' 0 0 None None True]
                 @ [SelectionEdit 0 3 0 3 False None None]) = Some es'
            \<and> block_text (current_content es') 0 = Some ''# Title''
            \<and> anchor_offset (es_selection es') = focus_offset (es_selection es')
            \<and> anchor_offset (es_selection es') = 5)"
  using perform_dependent_edits_caret
          [of "plain_state [plain_block 0 HeaderOne ''Title''] (collapsed_at 0 3)" 0 "''Title''"
              "[Insertion ''#'' 0 0 None (Some [''core.block.decorator'']) True, Insertion '' '' 0 0 None None True]"
              3 False None]
  by (simp add: block_text_def get_block_for_key_def weave_def)

theorem perform_dependent_edits_missing_block_witness:
  "get_block_for_key (current_content (plain_state [plain_block 0 Unstyled ''x''] (collapsed_at 0 0))) 1 = None
   \<and> perform_dependent_edits (plain_state [plain_block 0 Unstyled ''x''] (collapsed_at 0 0))
       [Insertion ''y'' 1 0 None None False] = None"
  using perform_dependent_edits_missing_block
          [of "plain_state [plain_block 0 Unstyled ''x''] (collapsed_at 0 0)" 1 "''y''" 0 None None False "[]"]
  by (simp add: get_block_for_key_def)


theorem perform_dependent_edits_undo_witness:
  "list_all bypasses_undo [Insertion ''#'' 0 0 None None True, SelectionEdit 0 1 0 1 False None None]
   \<and> (\<exists>es'. perform_dependent_edits (plain_state [plain_block 0 Unstyled ''XY''] (collapsed_at 0 0))
              [Insertion ''#'' 0 0 None None True, SelectionEdit 0 1 0 1 False None None] = Some es'
            \<and> undo_stack es' = [])"
proof -
  let ?es = "plain_state [plain_block 0 Unstyled ''XY''] (collapsed_at 0 0)"
  let ?eds = "[Insertion ''#'' 0 0 None None True, SelectionEdit 0 1 0 1 False None None]"
  have "perform_dependent_edits ?es ?eds \<noteq> None" by code_simp
  then obtain es' where e: "perform_dependent_edits ?es ?eds = Some es'" by blast
  have b: "list_all bypasses_undo ?eds" by simp
  show ?thesis using perform_dependent_edits_undo [OF e b] e b by simp
qed

end
