(* ===== verification/Block_Pipeline.thy ===== *)
theory Block_Pipeline
  imports Convert_Block_Type Dependent_Edits
begin

text \<open>
  The collapse and expand steps of the block-type state machine (spec 4.4) and the
  \<open>onChange\<close> pipeline of \<open>coreBlockPlugin/index.ts\<close> that runs convert, collapse and
  expand in that order.  \<open>collapseBlocks\<close> (\<open>steps/collapseBlocks.ts\<close>) removes the
  matched prefix of every expandable block whose selection edges lie outside it; the forced
  variant, \<open>collapseBlocksAtSelectionEdges\<close>, does so on the blocks at the selection's edges.
  The expand step's source (\<open>steps/expandBlocks\<close>) is not in the repository: it is modelled
  from spec 4.4 as the converse of collapse, reinserting the canonical prefix pieces of an
  expandable block that holds a selection edge and lacks its prefix, through
  \<open>performDependentEdits\<close> with undo disabled, the selection following the insertions.
\<close>

section \<open>Collapse\<close>

text \<open>
  One step of the reducer over the affected keys: \<open>content.getBlockForKey(blockKey)\<close> of
  a key no longer in the document is \<open>undefined\<close> and \<open>block.getType()\<close> throws.
  \<open>blockText.match(pattern)\<close> of a non-global pattern is \<open>exec\<close>; the replaced range is
  \<open>[0, match[0].length)\<close>, whatever the match index.
\<close>

definition collapse_one :: "selection \<Rightarrow> bool \<Rightarrow> content \<Rightarrow> block_key \<Rightarrow> content option" where
  "collapse_one sel force c k =
     do {
       b \<leftarrow> get_block_for_key c k;
       case blocks_registry (b_type b) of
         Some d \<Rightarrow>
           if def_expandable d \<and> (force \<or> \<not> has_edge_within sel k 0 (int (length (b_text b))))
           then (case pattern_exec (def_pattern d) (b_text b) of
                   Some m \<Rightarrow> replace_text c (create_selection_with_range k 0 (int (length (m_whole m)))) [] []
                 | None \<Rightarrow> Some c)
           else Some c
       | None \<Rightarrow> Some c
     }"

definition collapse_blocks :: "editor_state \<Rightarrow> block_key list \<Rightarrow> bool \<Rightarrow> editor_state option" where
  "collapse_blocks es ks force =
     (let sel = es_selection es; cur = current_content es in
      do {
        nc \<leftarrow> fold_option (collapse_one sel force) cur ks;
        Some (if nc \<noteq> cur
              then force_selection (perform_un_undoable_edits es (\<lambda>d. push d nc RemoveRange)) sel
              else es)
      })"

text \<open>The default arguments: every key of the document, not forced.\<close>

definition collapse_blocks_default :: "editor_state \<Rightarrow> editor_state option" where
  "collapse_blocks_default es = collapse_blocks es (block_keys (current_content es)) False"

text \<open>\<open>uniq([startKey, endKey])\<close>: one key when the selection is inside one block.\<close>

definition collapse_blocks_at_selection_edges :: "editor_state \<Rightarrow> editor_state option" where
  "collapse_blocks_at_selection_edges es =
     collapse_blocks es (remdups [start_key (es_selection es), end_key (es_selection es)]) True"

section \<open>Expand\<close>

text \<open>
  The insertions that expand one block: the canonical pieces of its definition at offset 0,
  in order, with their styles and undo disabled, when the block is expandable, a selection
  edge rests in it and its text does not match its pattern.
\<close>

definition expand_edits :: "selection \<Rightarrow> block \<Rightarrow> edit list" where
  "expand_edits sel b =
     (case blocks_registry (b_type b) of
        Some (ExpandableBlock t p pieces) \<Rightarrow>
          if has_edge_within sel (b_key b) 0 (int (length (b_text b))) \<and> pattern_exec p (b_text b) = None
          then map (\<lambda>(txt, sty). Insertion txt (b_key b) 0 None sty True) pieces
          else []
      | _ \<Rightarrow> [])"

definition expand_blocks :: "editor_state \<Rightarrow> editor_state option" where
  "expand_blocks es =
     (let sel = es_selection es;
          eds = concat (map (expand_edits sel) (blocks (current_content es)))
      in if eds = [] then Some es
         else perform_dependent_edits es
                (eds @ [SelectionEdit (anchor_key sel) (nat (anchor_offset sel)) (focus_key sel)
                          (nat (focus_offset sel)) (is_backward sel) None None]))"

section \<open>The plugin\<close>

text \<open>
  \<open>createCoreBlockPlugin(getEditorState).onChange\<close>: \<open>getEditorState()\<close> is the state
  before the change.  \<open>normalizeCoreBlocks\<close> is the forced collapse.
\<close>

definition core_block_on_change :: "editor_state \<Rightarrow> editor_state \<Rightarrow> editor_state option" where
  "core_block_on_change prev es =
     do {
       e1 \<leftarrow> convert_block_type es prev;
       e2 \<leftarrow> collapse_blocks_default e1;
       expand_blocks e2
     }"

definition normalize_core_blocks :: "editor_state \<Rightarrow> editor_state option" where
  "normalize_core_blocks es = collapse_blocks_at_selection_edges es"


section \<open>Lemmas on collapse and expand\<close>

lemma join_blocks_from_start:
  "join_blocks b b 0 (int e) = b\<lparr>b_text := drop e (b_text b), b_chars := drop e (b_chars b)\<rparr>"
  by (simp add: join_blocks_def js_slice_from_nat)

lemma collapse_one_match:
  assumes dk: "distinct (block_keys c)" and b: "get_block_for_key c k = Some b"
    and d: "blocks_registry (b_type b) = Some d" "def_expandable d"
    and sel: "force \<or> \<not> has_edge_within sel k 0 (int (length (b_text b)))"
    and m: "pattern_exec (def_pattern d) (b_text b) = Some m"
  shows "collapse_one sel force c k
         = Some (c\<lparr>blocks := replace_block (b\<lparr>b_text := drop (length (m_whole m)) (b_text b),
                                              b_chars := drop (length (m_whole m)) (b_chars b)\<rparr>) (blocks c),
                   sel_after := collapsed_at k 0\<rparr>)"
  using b d sel m replace_text_in_block [OF b dk, of 0 "int (length (m_whole m))" "[]" "[]"]
  by (auto simp: collapse_one_def join_blocks_from_start)

lemma collapse_one_wf:
  "collapse_one sel force c k = Some c' \<Longrightarrow> wf_content c \<Longrightarrow> wf_content c'"
  by (auto simp: collapse_one_def bind_eq_Some_conv split: option.splits if_splits intro: replace_text_wf)

lemma header_value_shape:
  assumes "1 \<le> n" "n \<le> 6"
  shows "block_values ! (n - 1) = header_definition (def_type (block_values ! (n - 1))) n"
proof -
  have "n = 1 \<or> n = 2 \<or> n = 3 \<or> n = 4 \<or> n = 5 \<or> n = 6" using assms by auto
  then show ?thesis by (elim disjE) (simp_all add: block_values_def)
qed

lemma header_exec:
  "pattern_exec (def_pattern (header_definition t n)) (replicate n CHR ''#'' @ CHR '' '' # r)
   = Some \<lparr>m_index = 0, m_whole = replicate n CHR ''#'' @ '' '', m_group1 = Some (replicate n CHR ''#'')\<rparr>"
  using starts_with_append [of "replicate n CHR ''#'' @ '' ''" r] by (simp add: header_definition_def)

lemma last_change_un_undoable_push [simp]:
  "last_change (perform_un_undoable_edits es (\<lambda>d. push d c ct))
   = (if c = current_content es then last_change es else Some ct)"
  "last_change (force_selection es s) = last_change es"
  by (simp_all add: perform_un_undoable_edits_def push_def force_selection_def)

lemma collapse_blocks_single:
  assumes "collapse_one (es_selection es) force (current_content es) k = Some c'" "c' \<noteq> current_content es"
  shows "collapse_blocks es [k] force
         = Some (force_selection (perform_un_undoable_edits es (\<lambda>d. push d c' RemoveRange)) (es_selection es))"
  using assms by (simp add: collapse_blocks_def)

lemma collapse_blocks_header_state:
  assumes wf: "wf_content (current_content es)"
    and b: "get_block_for_key (current_content es) k = Some b"
    and n: "1 \<le> n" "n \<le> 6" and ty: "b_type b = def_type (block_values ! (n - 1))"
    and t: "b_text b = replicate n CHR ''#'' @ CHR '' '' # r"
    and away: "\<not> has_edge_within (es_selection es) k 0 (int (length (b_text b)))"
  defines "b' \<equiv> b\<lparr>b_text := r, b_chars := drop (Suc n) (b_chars b)\<rparr>"
  defines "c' \<equiv> (current_content es)\<lparr>blocks := replace_block b' (blocks (current_content es)),
                                      sel_after := collapsed_at k 0\<rparr>"
  shows "collapse_blocks es [k] False
         = Some (force_selection (perform_un_undoable_edits es (\<lambda>d. push d c' RemoveRange)) (es_selection es))"
    and "get_block_for_key c' k = Some b'" "wf_content c'" "c' \<noteq> current_content es"
proof -
  let ?d = "header_definition (b_type b) n"
  have reg: "blocks_registry (b_type b) = Some ?d"
    using header_registry [OF n] header_value_shape [OF n] ty by simp
  have dk: "distinct (block_keys (current_content es))" using wf by (simp add: wf_content_def)
  have ex: "pattern_exec (def_pattern ?d) (b_text b)
            = Some \<lparr>m_index = 0, m_whole = replicate n CHR ''#'' @ '' '', m_group1 = Some (replicate n CHR ''#'')\<rparr>"
    using header_exec t by simp
  have exp: "def_expandable ?d" by simp
  have "False \<or> \<not> has_edge_within (es_selection es) k 0 (int (length (b_text b)))" using away by simp
  from collapse_one_match [OF dk b reg exp this ex]
  have co: "collapse_one (es_selection es) False (current_content es) k = Some c'"
    using t by (simp add: c'_def b'_def)
  have kb: "b_key b' = k" using get_block_for_key_Some [OF b] by (simp add: b'_def)
  show gb: "get_block_for_key c' k = Some b'"
    using get_block_replace_block [OF kb] b by (simp add: c'_def)
  have "length (b_text b') \<noteq> length (b_text b)" using t by (simp add: b'_def)
  then have "b' \<noteq> b" by metis
  then show ne: "c' \<noteq> current_content es" using gb b by auto
  then show "collapse_blocks es [k] False
         = Some (force_selection (perform_un_undoable_edits es (\<lambda>d. push d c' RemoveRange)) (es_selection es))"
    by (rule collapse_blocks_single [OF co])
  show "wf_content c'"
    using collapse_one_wf [OF co wf] .
qed


lemma concat_map_single_key:
  "distinct (map b_key bs) \<Longrightarrow> x \<in> set bs \<Longrightarrow> b_key x = k \<Longrightarrow>
   (\<And>y. y \<in> set bs \<Longrightarrow> b_key y \<noteq> k \<Longrightarrow> f y = []) \<Longrightarrow> concat (map f bs) = f x"
proof (induction bs)
  case Nil
  then show ?case by simp
next
  case (Cons y bs)
  show ?case
  proof (cases "y = x")
    case True
    then have "\<forall>z \<in> set bs. b_key z \<noteq> k" using Cons.prems(1,3) by (auto simp: image_iff)
    then show ?thesis using True Cons.prems(4) by (induction bs) auto
  next
    case False
    then have "b_key y \<noteq> k" using Cons.prems(1-3) by auto
    then show ?thesis using False Cons by simp
  qed
qed

lemma weave_single_group: "weave ((\<lambda>_. [])(0 := x)) t = x @ t"
proof (cases t)
  case Nil
  then show ?thesis by (simp add: weave_def)
next
  case (Cons c cs)
  have "weave_from ((\<lambda>_. [])(0 := x)) (Suc 0) cs = weave_from (\<lambda>_. []) (Suc 0) cs"
    by (rule weave_from_cong) simp
  then show ?thesis using Cons by (simp add: weave_def)
qed

lemma expand_edits_other:
  "b_key y \<noteq> k \<Longrightarrow> expand_edits (collapsed_at k off) y = []"
  by (simp add: expand_edits_def has_edge_within_def split: option.split core_block_definition.split)

lemma expand_edits_header:
  assumes "blocks_registry (b_type b) = Some (header_definition t n)"
    and "0 \<le> off" "off \<le> int (length (b_text b))"
    and "\<not> starts_with (b_text b) (replicate n CHR ''#'' @ '' '')"
  shows "expand_edits (collapsed_at (b_key b) off) b
         = [Insertion (replicate n CHR ''#'') (b_key b) 0 None (Some [decorator]) True,
            Insertion '' '' (b_key b) 0 None None True]"
  using assms by (simp add: expand_edits_def header_definition_def has_edge_within_def)


lemma run_edits_undo:
  "run_edits st edits = Some st' \<Longrightarrow> list_all bypasses_undo edits
   \<Longrightarrow> undo_stack (eds_editor st') = undo_stack (eds_editor st)"
  by (induction edits arbitrary: st) (auto simp: bind_eq_Some_conv dest: perform_edit_undo)

lemma collapse_blocks_wf:
  "collapse_blocks es ks force = Some es' \<Longrightarrow> wf_content (current_content es) \<Longrightarrow> wf_content (current_content es')"
  by (auto simp: collapse_blocks_def Let_def bind_eq_Some_conv split: if_splits
           elim!: fold_option_invariant intro: collapse_one_wf)

lemma expand_blocks_wf:
  "expand_blocks es = Some es' \<Longrightarrow> wf_content (current_content es) \<Longrightarrow> wf_content (current_content es')"
  by (auto simp: expand_blocks_def Let_def perform_dependent_edits_def split: if_splits dest: run_edits_wf)


lemma core_block_on_change_keeps_wf:
  assumes "core_block_on_change prev es = Some es'" "wf_content (current_content es)"
  shows "wf_content (current_content es')"
proof -
  obtain e1 e2 where e1: "convert_block_type es prev = Some e1"
    and e2: "collapse_blocks_default e1 = Some e2" and e3: "expand_blocks e2 = Some es'"
    using assms(1) by (auto simp: core_block_on_change_def bind_eq_Some_conv)
  have "wf_content (current_content e1)"
    using e1 assms(2) by (auto simp: convert_block_type_def Let_def bind_eq_Some_conv split: if_splits
                                intro: complete_list_wf convert_blocks_wf)
  then have "wf_content (current_content e2)"
    using e2 by (auto simp: collapse_blocks_default_def intro: collapse_blocks_wf)
  then show ?thesis using e3 by (rule expand_blocks_wf [rotated])
qed


section \<open>Properties of the block pipeline\<close>

text \<open>
  C32: Collapse and expand are inverse on a header block.  A header block whose selection
  edges lie elsewhere collapses to the text after its prefix; when the caret then enters
  it, expand reinserts the canonical prefix, restoring the original text with the caret
  where it was relative to the visible text, and neither step adds to the undo history.
\<close>

lemma collapse_expand_roundtrip:
  assumes wf: "wf_content (current_content es)"
    and b: "get_block_for_key (current_content es) k = Some b"
    and n: "1 \<le> n" "n \<le> 6" and ty: "b_type b = def_type (block_values ! (n - 1))"
    and t: "b_text b = replicate n CHR ''#'' @ CHR '' '' # r"
    and away: "\<not> has_edge_within (es_selection es) k 0 (int (length (b_text b)))"
    and r: "\<not> starts_with r (replicate n CHR ''#'' @ '' '')"
    and off: "off \<le> length r"
  shows "\<exists>es1 es2. collapse_blocks es [k] False = Some es1
           \<and> block_text (current_content es1) k = Some r
           \<and> expand_blocks (es1\<lparr>es_selection := collapsed_at k (int off)\<rparr>) = Some es2
           \<and> block_text (current_content es2) k = Some (b_text b)
           \<and> es_selection es2 = collapsed_at k (int (off + n + 1))
           \<and> undo_stack es2 = undo_stack es"
proof -
  let ?b' = "b\<lparr>b_text := r, b_chars := drop (Suc n) (b_chars b)\<rparr>"
  let ?c' = "(current_content es)\<lparr>blocks := replace_block ?b' (blocks (current_content es)),
                                   sel_after := collapsed_at k 0\<rparr>"
  let ?es1 = "force_selection (perform_un_undoable_edits es (\<lambda>d. push d ?c' RemoveRange)) (es_selection es)"
  let ?es1' = "?es1\<lparr>es_selection := collapsed_at k (int off)\<rparr>"
  note st = collapse_blocks_header_state [OF wf b n ty t away]
  have gb: "get_block_for_key ?c' k = Some ?b'" using st(2) .
  have kb: "b_key ?b' = k" using get_block_for_key_Some [OF gb] by simp
  have dk: "distinct (map b_key (blocks ?c'))" using st(3) by (simp add: wf_content_def block_keys_def)
  have reg: "blocks_registry (b_type ?b') = Some (header_definition (b_type b) n)"
    using header_registry [OF n] header_value_shape [OF n] ty by simp
  let ?eds = "[Insertion (replicate n CHR ''#'') k 0 None (Some [decorator]) True, Insertion '' '' k 0 None None True]"
  have "expand_edits (collapsed_at k (int off)) ?b' = ?eds"
    using expand_edits_header [OF reg, of "int off"] kb off r by simp
  then have eds: "concat (map (expand_edits (collapsed_at k (int off))) (blocks ?c')) = ?eds"
    using concat_map_single_key [OF dk _ kb, of "expand_edits (collapsed_at k (int off))"]
      get_block_for_key_Some [OF gb] expand_edits_other by auto
  have exp: "expand_blocks ?es1' = perform_dependent_edits ?es1' (?eds @ [SelectionEdit k off k off False None None])"
    using eds by (simp add: expand_blocks_def Let_def del: concat_eq_Nil_conv)
  let ?g = "add_groups (\<lambda>_. []) ?eds"
  have g: "?g = (\<lambda>_. [])(0 := replicate n CHR ''#'' @ '' '')" by simp
  have bt: "block_text (current_content ?es1') k = Some r" using gb by (simp add: block_text_def)
  obtain st1 where st1: "run_edits \<lparr>eds_editor = ?es1', eds_insertions = (\<lambda>_ _. 0), eds_deletions = (\<lambda>_ _. 0)\<rparr> ?eds = Some st1"
    and inv1: "edits_inv k r ?g st1"
    using run_insertions_inv [OF edits_inv_start [OF bt], of ?eds] by auto
  obtain st2 where st2: "perform_edit st1 (SelectionEdit k off k off False None None) = Some st2"
    and inv2: "edits_inv k r ?g st2"
    and sel: "es_selection (eds_editor st2) =
               \<lparr>anchor_key = k, anchor_offset = int off + int (prefix_sum (\<lambda>j. length (?g j)) (off + adjustment_amount None)),
                focus_key = k, focus_offset = int off + int (prefix_sum (\<lambda>j. length (?g j)) (off + adjustment_amount None)),
                is_backward = False\<rparr>"
    using perform_selection_edit_inv [OF inv1] by blast
  have run: "run_edits \<lparr>eds_editor = ?es1', eds_insertions = (\<lambda>_ _. 0), eds_deletions = (\<lambda>_ _. 0)\<rparr>
               (?eds @ [SelectionEdit k off k off False None None]) = Some st2"
  proof -
    have "run_edits st1 [SelectionEdit k off k off False None None] = Some st2"
      by (simp only: run_edits.simps st2 Option.bind_lunit)
    then show ?thesis by (simp only: run_edits_append st1 Option.bind_lunit)
  qed
  have "int off + int (prefix_sum (\<lambda>j. length (?g j)) (off + adjustment_amount None)) = int (off + n + 1)"
    using prefix_sum_adjustment [OF off, of ?g None] g off by (simp add: weave_single_group min_def)
  moreover have "block_text (current_content (eds_editor st2)) k = Some (b_text b)"
    using inv2 g t by (simp add: edits_inv_def weave_single_group)
  moreover have "undo_stack (eds_editor st2) = undo_stack es"
    using run_edits_undo [OF run] by simp
  ultimately show ?thesis
    using st(1) bt exp run sel by (auto simp: perform_dependent_edits_def collapsed_at_def)
qed

text \<open>
  C33: \<open>collapseBlocks\<close> hides the prefix of a header block that no selection edge touches:
  the block keeps the text after its hashes and space, the selection is restored, the undo
  stack is unchanged and the step is recorded as a range removal.
\<close>

lemma collapse_blocks_header:
  assumes wf: "wf_content (current_content es)"
    and b: "get_block_for_key (current_content es) k = Some b"
    and n: "1 \<le> n" "n \<le> 6" and ty: "b_type b = def_type (block_values ! (n - 1))"
    and t: "b_text b = replicate n CHR ''#'' @ CHR '' '' # r"
    and away: "\<not> has_edge_within (es_selection es) k 0 (int (length (b_text b)))"
  shows "\<exists>es'. collapse_blocks es [k] False = Some es'
           \<and> block_text (current_content es') k = Some r
           \<and> es_selection es' = es_selection es \<and> undo_stack es' = undo_stack es
           \<and> last_change es' = Some RemoveRange"
  using collapse_blocks_header_state [OF wf b n ty t away] by (simp add: block_text_def)




text \<open>
  A worked run of the whole pipeline: typing the space after \<open>#\<close> at the start of an
  unstyled block makes it a first-level header that stays expanded while the caret is in
  it: the text keeps its decorated \<open>"# "\<close> prefix and the caret stays after it; once the
  caret moves to another block, the next change collapses the header to its bare text.
\<close>

lemma core_block_on_change_header_cycle:
  "map_option (\<lambda>es'. (blocks (current_content es'), es_selection es'))
     (core_block_on_change (plain_state [plain_block 1 Unstyled ''#x'', plain_block 2 Unstyled ''y''] (collapsed_at 1 1))
        ((plain_state [plain_block 1 Unstyled ''# x'', plain_block 2 Unstyled ''y''] (collapsed_at 1 2))
           \<lparr>last_change := Some InsertCharacters\<rparr>))
   = Some ([\<lparr>b_key = 1, b_type = HeaderOne, b_text = ''# x'',
             b_chars = [\<lparr>cm_style = [decorator], cm_entity = None\<rparr>, \<lparr>cm_style = [], cm_entity = None\<rparr>,
                        \<lparr>cm_style = [], cm_entity = None\<rparr>]\<rparr>, plain_block 2 Unstyled ''y''],
           collapsed_at 1 2)
   \<and> map_option (\<lambda>es'. map b_text (blocks (current_content es')))
       (core_block_on_change (plain_state [plain_block 1 HeaderOne ''# x'', plain_block 2 Unstyled ''y''] (collapsed_at 1 2))
          ((plain_state [plain_block 1 HeaderOne ''# x'', plain_block 2 Unstyled ''yz''] (collapsed_at 2 2))
             \<lparr>last_change := Some InsertCharacters\<rparr>))
     = Some [''x'', ''yz'']"
  by code_simp

section \<open>Witnesses\<close>

text \<open>A second-level header \<open>"## Title"\<close> above a plain block that holds the caret.\<close>

lemma header_two_sample:
  "wf_content (current_content (plain_state [plain_block 1 HeaderTwo ''## Title'', plain_block 2 Unstyled ''x''] (collapsed_at 2 0)))"
  "get_block_for_key (current_content (plain_state [plain_block 1 HeaderTwo ''## Title'', plain_block 2 Unstyled ''x''] (collapsed_at 2 0))) 1 = Some (plain_block 1 HeaderTwo ''## Title'')"
  "b_type (plain_block 1 HeaderTwo ''## Title'') = def_type (block_values ! (2 - 1))"
  "b_text (plain_block 1 HeaderTwo ''## Title'') = replicate 2 CHR ''#'' @ CHR '' '' # ''Title''"
  "\<not> has_edge_within (es_selection (plain_state [plain_block 1 HeaderTwo ''## Title'', plain_block 2 Unstyled ''x''] (collapsed_at 2 0))) 1 0 (int (length (b_text (plain_block 1 HeaderTwo ''## Title''))))"
  by (simp_all add: doc_simps block_values_def has_edge_within_def numeral_eq_Suc)

lemma collapse_blocks_header_witness:
  "\<exists>es'. collapse_blocks (plain_state [plain_block 1 HeaderTwo ''## Title'', plain_block 2 Unstyled ''x''] (collapsed_at 2 0)) [1] False = Some es'
     \<and> block_text (current_content es') 1 = Some ''Title''
     \<and> es_selection es' = collapsed_at 2 0 \<and> undo_stack es' = [] \<and> last_change es' = Some RemoveRange"
  using collapse_blocks_header [OF header_two_sample(1,2) _ _ header_two_sample(3,4,5)] by simp

lemma collapse_expand_roundtrip_witness:
  "\<exists>es1 es2. collapse_blocks (plain_state [plain_block 1 HeaderTwo ''## Title'', plain_block 2 Unstyled ''x''] (collapsed_at 2 0)) [1] False = Some es1
     \<and> block_text (current_content es1) 1 = Some ''Title''
     \<and> expand_blocks (es1\<lparr>es_selection := collapsed_at 1 2\<rparr>) = Some es2
     \<and> block_text (current_content es2) 1 = Some ''## Title''
     \<and> es_selection es2 = collapsed_at 1 5 \<and> undo_stack es2 = []"
proof -
  have r: "\<not> starts_with ''Title'' (replicate 2 CHR ''#'' @ '' '')" by (simp add: numeral_eq_Suc)
  show ?thesis
    using collapse_expand_roundtrip [OF header_two_sample(1,2) _ _ header_two_sample(3,4,5) r, of 2]
    by simp
qed


end
