(* ===== verification/Style_Queries.thy ===== *)
theory Style_Queries
  imports Draft_Utils "HOL-Library.AList"
begin

text \<open>
  The read-only queries of \<open>src/app/utils/draftUtils.ts\<close> (spec 4.2) and its two
  stripping helpers: entity and style stripping over a block, the decorator strategy,
  the walk over the blocks of a selection and the text it covers, the characters a change
  inserted or deleted, the contiguous style ranges around an offset with their two scan
  loops, and the overlap test on half-open ranges.  An Immutable \<open>Map\<close> from style names
  is an association list in insertion order; an \<open>OrderedSet\<close> is a list without
  duplicates.  Every dereference of \<open>undefined\<close> is \<open>None\<close>.
\<close>

section \<open>Stripping entities and styles\<close>

text \<open>
  The runs whose entity the filter keeps, tested in order; looking up an unknown entity
  key throws.
\<close>

fun entity_runs_kept ::
  "content \<Rightarrow> (entity \<Rightarrow> bool) \<Rightarrow> (entity_key option \<times> nat \<times> nat) list \<Rightarrow> (nat \<times> nat) list option" where
  "entity_runs_kept c flt [] = Some []"
| "entity_runs_kept c flt ((v, st, en) # rs) =
     do {
       keep \<leftarrow> (case v of None \<Rightarrow> Some False | Some ek \<Rightarrow> map_option flt (get_entity c ek));
       rest \<leftarrow> entity_runs_kept c flt rs;
       Some (if keep then (st, en) # rest else rest)
     }"

definition strip_entities_from_block :: "content \<Rightarrow> block_key \<Rightarrow> (entity \<Rightarrow> bool) \<Rightarrow> content option" where
  "strip_entities_from_block c k flt =
     do {
       b \<leftarrow> get_block_for_key c k;
       rs \<leftarrow> entity_runs_kept c flt (entity_runs b);
       fold_option (\<lambda>c' (st, en). apply_entity c' (create_selection_with_range (b_key b) (int st) (int en)) None) c rs
     }"

text \<open>
  \<open>stripStylesFromBlock\<close>: the characters in \<open>[start, end)\<close> lose the styles the filter
  selects; the block's character list is rebuilt from the slices before, inside and after
  the range.  The tail is \<open>slice(end || size + 1)\<close>: an end of 0 is falsy and drops it.
\<close>

definition strip_styles_from_block ::
  "content \<Rightarrow> block_key \<Rightarrow> (string \<Rightarrow> bool) \<Rightarrow> int \<Rightarrow> int option \<Rightarrow> content option" where
  "strip_styles_from_block c k flt st en =
     (if en = Some st then Some c
      else do {
        b \<leftarrow> get_block_for_key c k;
        let cs = b_chars b;
        let inside = (case en of None \<Rightarrow> js_slice_from cs st | Some e \<Rightarrow> js_slice cs st e);
        let nc = map (\<lambda>m. m\<lparr>cm_style := filter (\<lambda>x. \<not> flt x) (cm_style m)\<rparr>) inside;
        let tl = js_slice_from cs (case en of Some e \<Rightarrow> if e = 0 then int (length cs) + 1 else e
                                            | None \<Rightarrow> int (length cs) + 1);
        Some (c\<lparr>blocks := replace_block (b\<lparr>b_chars := js_slice cs 0 st @ nc @ tl\<rparr>) (blocks c)\<rparr>)
      })"

text \<open>
  \<open>createDecoratorStrategyMatchingEntityType(type)\<close>: the ranges of the block whose
  entity has the given type, as the strategy reports them to its callback.
\<close>

definition decorator_strategy_ranges :: "string \<Rightarrow> block \<Rightarrow> content \<Rightarrow> (nat \<times> nat) list option" where
  "decorator_strategy_ranges ty b c =
     entity_runs_kept c (\<lambda>e. ent_type e = ty) (entity_runs b)"

section \<open>The blocks of a selection\<close>

text \<open>
  \<open>forEachBlockInSelection\<close>: from the start block, follow \<open>getBlockAfter\<close> until the
  end key; running off the document dereferences \<open>undefined\<close>.
\<close>

fun walk_to :: "block_key \<Rightarrow> block list \<Rightarrow> block list option" where
  "walk_to ek [] = None"
| "walk_to ek (b # bs) = (if b_key b = ek then Some [b] else map_option (Cons b) (walk_to ek bs))"

definition for_each_block_in_selection :: "editor_state \<Rightarrow> (block \<times> int \<times> int) list option" where
  "for_each_block_in_selection es =
     (let s = es_selection es; c = current_content es; sk = start_key s; ek = end_key s
      in map_option
           (map (\<lambda>b. (b, if b_key b = sk then start_offset s else 0,
                         if b_key b = ek then end_offset s else int (length (b_text b)))))
           (walk_to ek (skip_until (\<lambda>b. b_key b = sk) (blocks c))))"

definition map_blocks_in_selection :: "editor_state \<Rightarrow> (block \<Rightarrow> int \<Rightarrow> int \<Rightarrow> 'a) \<Rightarrow> 'a list option" where
  "map_blocks_in_selection es f = map_option (map (\<lambda>(b, st, en). f b st en)) (for_each_block_in_selection es)"

definition get_text_from_selection :: "editor_state \<Rightarrow> string \<Rightarrow> (string \<times> char_meta list) option" where
  "get_text_from_selection es delim =
     map_option (\<lambda>ts. (js_join delim (map (\<lambda>(b, st, en). js_slice (b_text b) st en) ts),
                       concat (map (\<lambda>(b, st, en). js_slice (b_chars b) st en) ts)))
       (for_each_block_in_selection es)"


section \<open>The characters of a change\<close>

text \<open>\<open>getInsertedCharactersFromChange\<close>: only an insertion inserts characters.\<close>

definition get_inserted_characters :: "change_type option \<Rightarrow> editor_state \<Rightarrow> editor_state \<Rightarrow> string option" where
  "get_inserted_characters ct old new =
     (if ct = Some InsertCharacters
      then map_option (\<lambda>b. js_slice (b_text b) (start_offset (es_selection old)) (end_offset (es_selection new)))
             (get_block_for_key (current_content new) (start_key (es_selection new)))
      else Some [])"

text \<open>
  \<open>getDeletedCharactersFromChange\<close>: a backspace or range removal deletes the old
  selection, or, when it was collapsed, the text between the new and the old caret; a
  forward delete deletes the character after the caret; an insertion or split over an
  expanded selection deletes the selected text.
\<close>

definition get_deleted_characters ::
  "change_type option \<Rightarrow> editor_state \<Rightarrow> editor_state \<Rightarrow> (string \<times> char_meta list) option" where
  "get_deleted_characters ct old new =
     (let os = es_selection old; oc = current_content old in
      if ct = Some BackspaceCharacter \<or> ct = Some RemoveRange then
        (case get_block_for_key oc (start_key os) of
           None \<Rightarrow> if \<not> is_collapsed os then get_text_from_selection old ''\<newline>'' else None
         | Some b \<Rightarrow>
             if \<not> is_collapsed os then get_text_from_selection old ''\<newline>''
             else let st = start_offset (es_selection new); en = start_offset os
                  in Some (js_slice (b_text b) st en, js_slice (b_chars b) st en))
      else if ct = Some DeleteCharacter then
        map_option (\<lambda>b. (js_slice (b_text b) (start_offset os) (start_offset os + 1),
                         js_slice (b_chars b) (start_offset os) (start_offset os + 1)))
          (get_block_for_key oc (start_key os))
      else if \<not> is_collapsed os \<and> (ct = Some InsertCharacters \<or> ct = Some SplitBlock)
      then get_text_from_selection old ''\<newline>''
      else Some ([], []))"

text \<open>\<open>getAdjacentCharacters\<close>: the characters before and after the focus.\<close>

definition get_adjacent_characters :: "content \<Rightarrow> selection \<Rightarrow> (string \<times> string) option" where
  "get_adjacent_characters c s =
     map_option (\<lambda>b. (js_slice (b_text b) (focus_offset s - 1) (focus_offset s),
                      js_slice (b_text b) (focus_offset s) (focus_offset s + 1)))
       (get_block_for_key c (focus_key s))"

section \<open>Contiguous style ranges\<close>

text \<open>
  The two scan loops of \<open>getContiguousStyleRange\<close>.  \<open>characters.get(i)\<close> is
  Immutable's \<open>List.get\<close>; the filter dereferences the character, so reading past the
  list fails.  The left scan stops below 0, the right scan at the list size.
\<close>

function scan_left :: "(char_meta \<Rightarrow> bool) \<Rightarrow> char_meta list \<Rightarrow> int \<Rightarrow> int option" where
  "scan_left f cs i =
     (if 0 \<le> i then (case imm_get cs i of None \<Rightarrow> None
                                    | Some ch \<Rightarrow> if f ch then scan_left f cs (i - 1) else Some i)
      else Some i)"
  by pat_completeness auto
termination
  by (relation "measure (\<lambda>(f, cs, i). nat (i + 1))") auto

function scan_right :: "(char_meta \<Rightarrow> bool) \<Rightarrow> char_meta list \<Rightarrow> int \<Rightarrow> int option" where
  "scan_right f cs i =
     (if i < int (length cs) then (case imm_get cs i of None \<Rightarrow> None
                                                  | Some ch \<Rightarrow> if f ch then scan_right f cs (i + 1) else Some i)
      else Some i)"
  by pat_completeness auto
termination
  by (relation "measure (\<lambda>(f, cs, i). nat (int (length cs) - i))") auto

definition get_contiguous_style_range :: "block \<Rightarrow> (char_meta \<Rightarrow> bool) \<Rightarrow> int \<Rightarrow> range option" where
  "get_contiguous_style_range b f i =
     do {
       st \<leftarrow> scan_left f (b_chars b) i;
       en \<leftarrow> scan_right f (b_chars b) i;
       Some \<lparr>range_block_key = b_key b, range_start = st + 1, range_end = en\<rparr>
     }"

text \<open>The overload taking a style name: the characters carrying that style.\<close>

definition has_style :: "string \<Rightarrow> char_meta \<Rightarrow> bool" where
  "has_style st m \<longleftrightarrow> st \<in> set (cm_style m)"

text \<open>\<open>block.getInlineStyleAt(i)\<close>: the styles of the character, none past the end.\<close>

definition inline_style_at :: "block \<Rightarrow> int \<Rightarrow> style" where
  "inline_style_at b i = (case imm_get (b_chars b) i of Some m \<Rightarrow> cm_style m | None \<Rightarrow> [])"

text \<open>
  The reductions of the three style-range queries: for each style the filter keeps, in
  order, its contiguous range around the offset the query chooses for it.
\<close>

definition style_ranges ::
  "block \<Rightarrow> (string \<Rightarrow> bool) \<Rightarrow> (string \<Rightarrow> int) \<Rightarrow> style \<Rightarrow> (string \<times> range) list option" where
  "style_ranges b flt off sts =
     fold_option (\<lambda>acc st. if flt st
                           then map_option (\<lambda>r. AList.update st r acc)
                                  (get_contiguous_style_range b (has_style st) (off st))
                           else Some acc) [] sts"

definition get_contiguous_style_ranges_at_offset ::
  "block \<Rightarrow> int \<Rightarrow> (string \<Rightarrow> bool) \<Rightarrow> (string \<times> range) list option" where
  "get_contiguous_style_ranges_at_offset b off flt =
     style_ranges b flt (\<lambda>_. off) (inline_style_at b (max 0 off))"

text \<open>
  \<open>char.getStyle().equals(stylesAtOffset)\<close>: Immutable compares ordered sets in order,
  so this is equality of the style lists.
\<close>

definition get_equivalent_style_range_at_offset :: "block \<Rightarrow> int \<Rightarrow> (style \<times> range) option" where
  "get_equivalent_style_range_at_offset b off =
     (let sts = inline_style_at b (max 0 off)
      in map_option (\<lambda>r. (sts, r)) (get_contiguous_style_range b (\<lambda>m. cm_style m = sts) off))"

definition get_contiguous_style_ranges_near_offset ::
  "block \<Rightarrow> int \<Rightarrow> (string \<Rightarrow> bool) \<Rightarrow> (string \<times> range) list option" where
  "get_contiguous_style_ranges_near_offset b off flt =
     (let at = inline_style_at b off;
          adj = (if 0 < off then filter (\<lambda>x. x \<notin> set at) (inline_style_at b (off - 1)) else [])
      in style_ranges b flt (\<lambda>st. if st \<in> set adj then off - 1 else off) (at @ adj))"

text \<open>
  \<open>getContiguousStyleRangesNearSelectionEdges\<close>: the ranges near the start, and for an
  expanded selection whose end block exists, merged with those near the end (a style found
  at both gains the end's range).
\<close>

definition merge_edge_ranges ::
  "(string \<times> range list) list \<Rightarrow> (string \<times> range) list \<Rightarrow> (string \<times> range list) list" where
  "merge_edge_ranges m e =
     foldl (\<lambda>acc (st, r). case map_of acc st of
                            None \<Rightarrow> AList.update st [r] acc
                          | Some rs \<Rightarrow> AList.update st (if r \<in> set rs then rs else rs @ [r]) acc) m e"

definition get_contiguous_style_ranges_near_selection_edges ::
  "content \<Rightarrow> selection \<Rightarrow> (string \<Rightarrow> bool) \<Rightarrow> (string \<times> range list) list option" where
  "get_contiguous_style_ranges_near_selection_edges c s flt =
     do {
       near_start \<leftarrow> (case get_block_for_key c (start_key s) of
                        None \<Rightarrow> Some []
                      | Some sb \<Rightarrow> map_option (map (\<lambda>(st, r). (st, [r])))
                                     (get_contiguous_style_ranges_near_offset sb (start_offset s) flt));
       case get_block_for_key c (end_key s) of
         Some eb \<Rightarrow> if is_collapsed s then Some near_start
                   else map_option (merge_edge_ranges near_start)
                          (get_contiguous_style_ranges_near_offset eb (end_offset s) flt)
       | None \<Rightarrow> Some near_start
     }"

section \<open>Overlap of half-open ranges\<close>

definition ranges_overlap_unidirectionally :: "int \<times> int \<Rightarrow> int \<times> int \<Rightarrow> bool" where
  "ranges_overlap_unidirectionally a b \<longleftrightarrow> fst a \<le> fst b \<and> fst b < snd a"

definition ranges_overlap :: "int \<times> int \<Rightarrow> int \<times> int \<Rightarrow> bool" where
  "ranges_overlap a b \<longleftrightarrow> ranges_overlap_unidirectionally a b \<or> ranges_overlap_unidirectionally b a"


section \<open>The scan loops\<close>

text \<open>
  The reference the loops implement: the run of characters satisfying the filter that
  extends left and right of index \<open>i\<close>.
\<close>

definition contiguous_run :: "(char_meta \<Rightarrow> bool) \<Rightarrow> char_meta list \<Rightarrow> nat \<Rightarrow> nat \<times> nat" where
  "contiguous_run f cs i =
     (i - length (takeWhile f (rev (take i cs))), i + length (takeWhile f (drop i cs)))"

lemma scan_right_eq:
  "0 \<le> i \<Longrightarrow> nat i \<le> length cs \<Longrightarrow>
   scan_right f cs i = Some (i + int (length (takeWhile f (drop (nat i) cs))))"
proof (induction f cs i rule: scan_right.induct)
  case (1 f cs i)
  show ?case
  proof (cases "i < int (length cs)")
    case True
    then have d: "drop (nat i) cs = cs ! nat i # drop (nat (i + 1)) cs"
      using 1(2) by (simp add: Cons_nth_drop_Suc nat_add_distrib)
    show ?thesis
      using True 1 by (simp add: imm_get_in_range d)
  next
    case False
    then show ?thesis using 1(2,3) by simp
  qed
qed

lemma scan_left_eq:
  "-1 \<le> i \<Longrightarrow> i < int (length cs) \<Longrightarrow>
   scan_left f cs i = Some (i - int (length (takeWhile f (rev (take (nat (i + 1)) cs)))))"
proof (induction f cs i rule: scan_left.induct)
  case (1 f cs i)
  show ?case
  proof (cases "0 \<le> i")
    case True
    then have t: "take (nat (i + 1)) cs = take (nat i) cs @ [cs ! nat i]"
      using 1(3) by (simp add: take_Suc_conv_app_nth nat_add_distrib)
    have t': "nat (i - 1 + 1) = nat i" by simp
    show ?thesis
      using True 1 by (simp add: imm_get_in_range t t')
  next
    case False
    then have "i = -1" using 1(2) by simp
    then show ?thesis by simp
  qed
qed


lemma get_contiguous_style_range_run:
  assumes "i < length (b_chars b)" "f (b_chars b ! i)"
  shows "get_contiguous_style_range b f (int i)
         = Some \<lparr>range_block_key = b_key b, range_start = int (fst (contiguous_run f (b_chars b) i)),
                 range_end = int (snd (contiguous_run f (b_chars b) i))\<rparr>"
proof -
  let ?cs = "b_chars b"
  let ?L = "length (takeWhile f (rev (take i ?cs)))"
  have "rev (take (nat (int i + 1)) ?cs) = ?cs ! i # rev (take i ?cs)"
    using assms(1) by (simp add: take_Suc_conv_app_nth nat_add_distrib)
  then have l: "scan_left f ?cs (int i) = Some (int i - int (Suc ?L))"
    using scan_left_eq [of "int i" ?cs f] assms by simp
  have "?L \<le> i"
    using length_takeWhile_le [of f "rev (take i ?cs)"] assms(1) by simp
  then show ?thesis
    using l scan_right_eq [of "int i" ?cs f] assms(1)
    by (simp add: get_contiguous_style_range_def contiguous_run_def of_nat_diff)
qed

lemma takeWhile_nth_P: "j < length (takeWhile P xs) \<Longrightarrow> P (xs ! j)"
  by (metis nth_mem set_takeWhileD takeWhile_nth)

lemma contiguous_run_inside:
  assumes "i < length cs" "fst (contiguous_run f cs i) \<le> j" "j < snd (contiguous_run f cs i)"
  shows "f (cs ! j)"
proof (cases "j < i")
  case True
  let ?r = "rev (take i cs)"
  have "i - Suc j < length (takeWhile f ?r)"
    using assms(2) True by (simp add: contiguous_run_def)
  then have "f (?r ! (i - Suc j))" by (rule takeWhile_nth_P)
  moreover have "?r ! (i - Suc j) = cs ! j"
    using True assms(1) by (simp add: rev_nth)
  ultimately show ?thesis by simp
next
  case False
  then have "j - i < length (takeWhile f (drop i cs))"
    using assms(3) by (simp add: contiguous_run_def)
  then have "f (drop i cs ! (j - i))" by (rule takeWhile_nth_P)
  then show ?thesis
    using False assms(1) by simp
qed

lemma contiguous_run_left_edge:
  assumes "i < length cs" "0 < fst (contiguous_run f cs i)"
  shows "\<not> f (cs ! (fst (contiguous_run f cs i) - 1))"
proof -
  let ?r = "rev (take i cs)"
  let ?L = "length (takeWhile f ?r)"
  have "?L < length ?r"
    using assms by (simp add: contiguous_run_def)
  then have "\<not> f (?r ! ?L)" by (rule nth_length_takeWhile)
  moreover have "?r ! ?L = cs ! (i - ?L - 1)"
    using \<open>?L < length ?r\<close> assms(1) by (simp add: rev_nth)
  ultimately show ?thesis by (simp add: contiguous_run_def)
qed

lemma contiguous_run_right_edge:
  assumes "i < length cs" "snd (contiguous_run f cs i) < length cs"
  shows "\<not> f (cs ! snd (contiguous_run f cs i))"
proof -
  let ?L = "length (takeWhile f (drop i cs))"
  have "?L < length (drop i cs)" using assms by (simp add: contiguous_run_def)
  then have "\<not> f (drop i cs ! ?L)" by (rule nth_length_takeWhile)
  then show ?thesis using assms(1) by (simp add: contiguous_run_def)
qed

lemma contiguous_run_bounds:
  "i < length cs \<Longrightarrow> f (cs ! i) \<Longrightarrow>
   fst (contiguous_run f cs i) \<le> i \<and> i < snd (contiguous_run f cs i) \<and> snd (contiguous_run f cs i) \<le> length cs"
proof -
  assume a: "i < length cs" "f (cs ! i)"
  have "length (takeWhile f (drop i cs)) \<le> length cs - i"
    using length_takeWhile_le [of f "drop i cs"] by simp
  moreover have "takeWhile f (drop i cs) \<noteq> []"
    using a by (simp add: Cons_nth_drop_Suc [symmetric])
  moreover have "length (takeWhile f (rev (take i cs))) \<le> i"
    using length_takeWhile_le [of f "rev (take i cs)"] by simp
  ultimately show ?thesis
    using a by (simp add: contiguous_run_def)
qed



section \<open>Stripping styles over a range\<close>

lemma map_chars_in_split:
  assumes "st \<le> en" "en \<le> length cs"
  shows "take st cs @ map g (take (en - st) (drop st cs)) @ drop en cs = map_chars_in g (int st, int en) cs"
proof (rule nth_equalityI)
  show "length (take st cs @ map g (take (en - st) (drop st cs)) @ drop en cs) = length (map_chars_in g (int st, int en) cs)"
    using assms by simp
next
  fix p
  assume "p < length (take st cs @ map g (take (en - st) (drop st cs)) @ drop en cs)"
  then have p: "p < length cs" using assms by simp
  consider "p < st" | "st \<le> p" "p < en" | "en \<le> p" by linarith
  then show "(take st cs @ map g (take (en - st) (drop st cs)) @ drop en cs) ! p = map_chars_in g (int st, int en) cs ! p"
  proof cases
    case 1
    then show ?thesis using assms p by (simp add: nth_append nth_map_chars_in)
  next
    case 2
    then show ?thesis using assms p by (simp add: nth_append nth_map_chars_in min_def)
  next
    case 3
    then show ?thesis using assms p by (simp add: nth_append nth_map_chars_in min_def)
  qed
qed

lemma map_chars_in_empty [simp]: "map_chars_in g (i, i) cs = cs"
  by (rule nth_equalityI) (auto simp: nth_map_chars_in)

section \<open>The style-range maps\<close>

lemma contiguous_range_in_block:
  "0 \<le> i \<Longrightarrow> i < int (length (b_chars b)) \<Longrightarrow> get_contiguous_style_range b f i \<noteq> None"
  using scan_left_eq [of i "b_chars b" f] scan_right_eq [of i "b_chars b" f]
  by (simp add: get_contiguous_style_range_def)

lemma fold_update_other:
  assumes "fold_option (\<lambda>acc s. if flt s then map_option (\<lambda>r. AList.update s r acc) (g s) else Some acc) acc0 xs = Some rs"
    and "st \<notin> set xs"
  shows "map_of rs st = map_of acc0 st"
  using assms
  by (induction xs arbitrary: acc0) (auto simp: bind_eq_Some_conv update_conv' split: if_splits)

lemma fold_update_lookup:
  assumes "fold_option (\<lambda>acc s. if flt s then map_option (\<lambda>r. AList.update s r acc) (g s) else Some acc) acc0 xs = Some rs"
    and "st \<in> set xs" "flt st" "g st = Some r"
  shows "map_of rs st = Some r"
  using assms
proof (induction xs arbitrary: acc0)
  case Nil
  then show ?case by simp
next
  case (Cons x xs)
  obtain acc1 where a1: "(if flt x then map_option (\<lambda>r. AList.update x r acc0) (g x) else Some acc0) = Some acc1"
    and r: "fold_option (\<lambda>acc s. if flt s then map_option (\<lambda>r. AList.update s r acc) (g s) else Some acc) acc1 xs = Some rs"
    using Cons.prems(1) by (auto simp: bind_eq_Some_conv)
  show ?case
  proof (cases "st \<in> set xs")
    case True
    then show ?thesis using Cons.IH [OF r] Cons.prems(3,4) by simp
  next
    case False
    then have "x = st" using Cons.prems(2) by simp
    then show ?thesis
      using fold_update_other [OF r False] a1 Cons.prems(3,4) by (auto simp: update_conv')
  qed
qed

lemma fold_update_total:
  "(\<And>s. s \<in> set xs \<Longrightarrow> flt s \<Longrightarrow> g s \<noteq> None) \<Longrightarrow>
   \<exists>rs. fold_option (\<lambda>acc s. if flt s then map_option (\<lambda>r. AList.update s r acc) (g s) else Some acc) acc0 xs = Some rs"
proof (induction xs arbitrary: acc0)
  case Nil
  then show ?case by simp
next
  case (Cons x xs)
  obtain acc1 where "(if flt x then map_option (\<lambda>r. AList.update x r acc0) (g x) else Some acc0) = Some acc1"
    using Cons.prems [of x] by (cases "flt x") auto
  moreover obtain rs where "fold_option (\<lambda>acc s. if flt s then map_option (\<lambda>r. AList.update s r acc) (g s) else Some acc) acc1 xs = Some rs"
    using Cons.IH Cons.prems by auto
  ultimately show ?case by auto
qed

lemma inline_style_at_in_range:
  "0 \<le> i \<Longrightarrow> i < int (length (b_chars b)) \<Longrightarrow> inline_style_at b i = cm_style (b_chars b ! nat i)"
  by (simp add: inline_style_at_def imm_get_in_range)

lemma inline_style_at_beyond:
  "int (length (b_chars b)) \<le> i \<Longrightarrow> inline_style_at b i = []"
  by (simp add: inline_style_at_def imm_get_beyond)

section \<open>Properties of the queries\<close>

text \<open>
  C24: Around an index whose character passes the filter, \<open>getContiguousStyleRange\<close>
  returns the maximal run of passing characters containing it: the range lies in the block,
  contains the index, every character in it passes, and the characters just outside fail.
\<close>

lemma get_contiguous_style_range_maximal:
  assumes "i < length (b_chars b)" "f (b_chars b ! i)"
  shows "\<exists>st en. get_contiguous_style_range b f (int i)
                   = Some \<lparr>range_block_key = b_key b, range_start = int st, range_end = int en\<rparr>
           \<and> st \<le> i \<and> i < en \<and> en \<le> length (b_chars b)
           \<and> (\<forall>j. st \<le> j \<and> j < en \<longrightarrow> f (b_chars b ! j))
           \<and> (0 < st \<longrightarrow> \<not> f (b_chars b ! (st - 1)))
           \<and> (en < length (b_chars b) \<longrightarrow> \<not> f (b_chars b ! en))"
proof -
  obtain st en where r: "contiguous_run f (b_chars b) i = (st, en)" by fastforce
  have "get_contiguous_style_range b f (int i)
        = Some \<lparr>range_block_key = b_key b, range_start = int st, range_end = int en\<rparr>"
    using get_contiguous_style_range_run [where b = b and f = f, OF assms] r by simp
  moreover have "st \<le> i \<and> i < en \<and> en \<le> length (b_chars b)"
    using contiguous_run_bounds [where f = f, OF assms] r by simp
  moreover have "\<forall>j. st \<le> j \<and> j < en \<longrightarrow> f (b_chars b ! j)"
    using contiguous_run_inside [where f = f, OF assms(1)] r by simp
  moreover have "0 < st \<longrightarrow> \<not> f (b_chars b ! (st - 1))"
    using contiguous_run_left_edge [where f = f, OF assms(1)] r by simp
  moreover have "en < length (b_chars b) \<longrightarrow> \<not> f (b_chars b ! en)"
    using contiguous_run_right_edge [where f = f, OF assms(1)] r by simp
  ultimately show ?thesis by blast
qed

text \<open>
  C25: Both scan loops end and neither reads past the list for an index inside the block:
  \<open>getContiguousStyleRange\<close> returns a range for every such index, whatever the filter.
\<close>

lemma get_contiguous_style_range_total:
  "0 \<le> i \<Longrightarrow> i < int (length (b_chars b)) \<Longrightarrow> \<exists>r. get_contiguous_style_range b f i = Some r"
  using scan_left_eq [of i "b_chars b" f] scan_right_eq [of i "b_chars b" f]
  by (simp add: get_contiguous_style_range_def)

text \<open>
  C26: Around an index whose character fails the filter, the range is inverted: it starts
  one past the index and ends at the index, an empty range whose start exceeds its end.
\<close>

lemma get_contiguous_style_range_inverted:
  assumes "0 \<le> i" "i < int (length (b_chars b))" "\<not> f (b_chars b ! nat i)"
  shows "get_contiguous_style_range b f i
         = Some \<lparr>range_block_key = b_key b, range_start = i + 1, range_end = i\<rparr>"
  using assms
  by (simp add: get_contiguous_style_range_def scan_left.simps [of f _ i] scan_right.simps [of f _ i]
      imm_get_in_range)

text \<open>
  C27: At the end of a block \<open>getEquivalentStyleRangeAtOffset\<close> throws: the left scan
  starts at the offset itself and hands the filter the \<open>undefined\<close> past the last
  character.
\<close>

lemma get_equivalent_style_range_at_end:
  "get_equivalent_style_range_at_offset b (int (length (b_chars b))) = None"
  by (simp add: get_equivalent_style_range_at_offset_def get_contiguous_style_range_def Let_def
      scan_left.simps [of _ _ "int (length (b_chars b))"] imm_get_beyond)

text \<open>
  C28: For non-empty half-open ranges \<open>rangesOverlap\<close> holds exactly when the two ranges
  share a position.
\<close>

lemma ranges_overlap_iff:
  assumes "fst a < snd a" "fst b < snd b"
  shows "ranges_overlap a b \<longleftrightarrow> (\<exists>x. fst a \<le> x \<and> x < snd a \<and> fst b \<le> x \<and> x < snd b)"
proof
  assume "ranges_overlap a b"
  then show "\<exists>x. fst a \<le> x \<and> x < snd a \<and> fst b \<le> x \<and> x < snd b"
    using assms by (auto simp: ranges_overlap_def ranges_overlap_unidirectionally_def)
next
  assume "\<exists>x. fst a \<le> x \<and> x < snd a \<and> fst b \<le> x \<and> x < snd b"
  then show "ranges_overlap a b"
    by (auto simp: ranges_overlap_def ranges_overlap_unidirectionally_def)
qed

text \<open>
  An empty range overlaps a range that starts where it does, although the two share no
  position.
\<close>

lemma ranges_overlap_empty:
  "ranges_overlap (0, 0) (0, 5) \<and> \<not> (\<exists>x::int. 0 \<le> x \<and> x < 0)"
  by (simp add: ranges_overlap_def ranges_overlap_unidirectionally_def)


text \<open>
  C30: Over a range inside the block, \<open>stripStylesFromBlock\<close> rebuilds the character list
  into exactly the list that mapping the style removal over the range gives: the characters
  of \<open>[start, end)\<close> lose the styles the filter selects, the others are kept, and the rest
  of the document is unchanged.
\<close>

lemma strip_styles_from_block_range:
  assumes wf: "wf_content c" and b: "get_block_for_key c k = Some b"
    and r: "st \<le> en" "en \<le> length (b_chars b)"
  shows "strip_styles_from_block c k flt (int st) (Some (int en))
         = Some (c\<lparr>blocks := replace_block
                    (b\<lparr>b_chars := map_chars_in (\<lambda>m. m\<lparr>cm_style := filter (\<lambda>x. \<not> flt x) (cm_style m)\<rparr>)
                                   (int st, int en) (b_chars b)\<rparr>) (blocks c)\<rparr>)"
proof (cases "st = en")
  case True
  have "replace_block b (blocks c) = blocks c"
    using replace_block_self get_block_for_key_Some [OF b] wf by (simp add: wf_content_def block_keys_def)
  then show ?thesis using True by (simp add: strip_styles_from_block_def)
next
  case False
  then have "0 < en" "int en \<noteq> 0" using r by simp_all
  then show ?thesis
    using b r False map_chars_in_split [OF r, of "\<lambda>m. m\<lparr>cm_style := filter (\<lambda>x. \<not> flt x) (cm_style m)\<rparr>"]
    by (simp add: strip_styles_from_block_def js_slice_nat js_slice_from_nat)
qed


text \<open>
  C31: On a selection inside one block, \<open>getTextFromSelection\<close> visits that block alone
  and returns the slices of its text and characters between the selection's start and end
  offsets, with no delimiter.
\<close>

lemma get_text_from_selection_single_block:
  assumes b: "get_block_for_key (current_content es) k = Some b"
    and k: "anchor_key (es_selection es) = k" "focus_key (es_selection es) = k"
  shows "get_text_from_selection es d
         = Some (js_slice (b_text b) (start_offset (es_selection es)) (end_offset (es_selection es)),
                 js_slice (b_chars b) (start_offset (es_selection es)) (end_offset (es_selection es)))"
proof -
  obtain ys where ys: "skip_until (\<lambda>x. b_key x = k) (blocks (current_content es)) = b # ys"
    using skip_until_find b by (fastforce simp: get_block_for_key_def)
  have "b_key b = k" using get_block_for_key_Some [OF b] by simp
  then show ?thesis
    using ys k by (simp add: get_text_from_selection_def for_each_block_in_selection_def selection_defs Let_def)
qed


text \<open>
  C37: The caret right after a styled run finds that run: for a style present before the
  offset and absent at it, \<open>getContiguousStyleRangesNearOffset\<close> succeeds and maps the
  style to the contiguous range around the previous character, which ends at the offset.
\<close>

lemma near_offset_adjacent_style:
  assumes off: "0 < off" "off \<le> int (length (b_chars b))"
    and st: "st \<in> set (inline_style_at b (off - 1))" "st \<notin> set (inline_style_at b off)" "flt st"
  shows "\<exists>rs r. get_contiguous_style_ranges_near_offset b off flt = Some rs
            \<and> map_of rs st = Some r \<and> get_contiguous_style_range b (has_style st) (off - 1) = Some r
            \<and> range_end r = off"
proof -
  let ?at = "inline_style_at b off"
  let ?adj = "filter (\<lambda>x. x \<notin> set ?at) (inline_style_at b (off - 1))"
  let ?o = "\<lambda>s. if s \<in> set ?adj then off - 1 else off"
  let ?g = "\<lambda>s. get_contiguous_style_range b (has_style s) (?o s)"
  have g: "?g s \<noteq> None" if "s \<in> set (?at @ ?adj)" for s
  proof (cases "s \<in> set ?adj")
    case True
    have "?g s = get_contiguous_style_range b (has_style s) (off - 1)" by (simp only: if_P [OF True])
    then show ?thesis using off contiguous_range_in_block [of "off - 1" b "has_style s"] by simp
  next
    case False
    then have "s \<in> set ?at" using that by auto
    then have "off < int (length (b_chars b))" using inline_style_at_beyond [of b off] by fastforce
    moreover have "?g s = get_contiguous_style_range b (has_style s) off" by (simp only: if_not_P [OF False])
    ultimately show ?thesis using off contiguous_range_in_block [of off b "has_style s"] by simp
  qed
  have near: "get_contiguous_style_ranges_near_offset b off flt = style_ranges b flt ?o (?at @ ?adj)"
    using off(1) by (simp add: get_contiguous_style_ranges_near_offset_def Let_def)
  obtain rs where rs0: "fold_option (\<lambda>acc s. if flt s then map_option (\<lambda>r. AList.update s r acc) (?g s) else Some acc)
                          [] (?at @ ?adj) = Some rs"
    using fold_update_total [of "?at @ ?adj" flt ?g "[]"] g by blast
  have rs: "get_contiguous_style_ranges_near_offset b off flt = Some rs"
    unfolding near style_ranges_def using rs0 by simp
  have adj: "st \<in> set ?adj" using st by simp
  obtain r where r: "?g st = Some r" using g [of st] adj by auto
  have "map_of rs st = Some r"
    using fold_update_lookup [OF rs0 _ st(3) r] adj by simp
  moreover have "range_end r = off"
  proof -
    let ?cs = "b_chars b" and ?i = "nat (off - 1)"
    have i: "?i < length ?cs" "int ?i = off - 1" using off by auto
    have h: "has_style st (?cs ! ?i)"
      using st(1) inline_style_at_in_range [of "off - 1" b] off by (simp add: has_style_def)
    have n: "length (takeWhile (has_style st) (drop (Suc ?i) ?cs)) = 0"
    proof (cases "Suc ?i < length ?cs")
      case True
      have si: "Suc ?i = nat off" using off(1) by simp
      have "\<not> has_style st (?cs ! Suc ?i)"
        using st(2) inline_style_at_in_range [of off b] True off(1) unfolding si by (simp add: has_style_def)
      then show ?thesis using True by (simp add: Cons_nth_drop_Suc [symmetric])
    next
      case False
      then show ?thesis by simp
    qed
    have "drop ?i ?cs = ?cs ! ?i # drop (Suc ?i) ?cs" using i(1) by (simp add: Cons_nth_drop_Suc)
    then have "scan_right (has_style st) ?cs (off - 1) = Some off"
      using scan_right_eq [of "off - 1" ?cs "has_style st"] off h n by simp
    moreover have "get_contiguous_style_range b (has_style st) (off - 1) = Some r"
      using r by (simp only: if_P [OF adj])
    ultimately show ?thesis
      by (auto simp: get_contiguous_style_range_def bind_eq_Some_conv simp del: scan_left.simps scan_right.simps)
  qed
  ultimately show ?thesis using rs r adj by auto
qed

text \<open>
  C38: The characters an insertion adds are read back by \<open>getInsertedCharactersFromChange\<close>:
  after \<open>Modifier.insertText\<close> of a non-empty text at a caret inside a block and the push
  of the result as \<open>insert-characters\<close>, the query returns exactly the inserted text.
\<close>

lemma get_inserted_after_insert:
  assumes wf: "wf_content (current_content old)"
    and b: "get_block_for_key (current_content old) k = Some b"
    and sel: "es_selection old = collapsed_at k i" "0 \<le> i" "nat i \<le> length (b_text b)"
    and ne: "txt \<noteq> []"
  shows "\<exists>c'. insert_text (current_content old) (collapsed_at k i) txt = Some c'
           \<and> get_inserted_characters (Some InsertCharacters) old (push old c' InsertCharacters) = Some txt"
proof -
  let ?c = "current_content old"
  let ?nb = "splice_block b i txt (replicate (length txt) \<lparr>cm_style = [], cm_entity = None\<rparr>)"
  let ?c' = "?c\<lparr>blocks := replace_block ?nb (blocks ?c), sel_after := collapsed_at k (i + int (length txt))\<rparr>"
  have dk: "distinct (block_keys ?c)" using wf by (simp add: wf_content_def)
  have ins: "insert_text ?c (collapsed_at k i) txt = Some ?c'" using insert_text_in_block [OF b dk] .
  have kb: "b_key ?nb = k" using get_block_for_key_Some [OF b] by simp
  have gb: "get_block_for_key ?c' k = Some ?nb" using get_block_replace_block [OF kb] b by simp
  have t: "b_text ?nb = take (nat i) (b_text b) @ txt @ drop (nat i) (b_text b)"
    using sel(2,3) by (simp add: splice_block_def js_slice_nat js_slice_from_nat)
  have "length (b_text ?nb) \<noteq> length (b_text b)" using t ne sel(3) by simp
  then have "?c' \<noteq> ?c" using replace_block_changes [OF b kb] by metis
  then have "es_selection (push old ?c' InsertCharacters) = collapsed_at k (i + int (length txt))"
    by (simp add: push_def)
  moreover have "js_slice (b_text ?nb) i (i + int (length txt)) = txt"
    using t sel(2,3) by (simp add: js_slice_nat nat_add_distrib min_def)
  ultimately have "get_inserted_characters (Some InsertCharacters) old (push old ?c' InsertCharacters) = Some txt"
    using gb sel(1) by (simp add: get_inserted_characters_def selection_defs)
  then show ?thesis using ins by blast
qed

text \<open>
  C39: The character a backspace removes is read back by \<open>getDeletedCharactersFromChange\<close>:
  after the removal of the character before a collapsed caret inside a block and the push
  of the result as \<open>backspace-character\<close>, the query returns that character with its
  metadata.
\<close>

lemma get_deleted_after_backspace:
  assumes wf: "wf_content (current_content old)"
    and b: "get_block_for_key (current_content old) k = Some b"
    and sel: "es_selection old = collapsed_at k (int i + 1)" "i < length (b_text b)"
  shows "\<exists>c'. replace_text (current_content old) (create_selection_with_range k (int i) (int i + 1)) [] [] = Some c'
           \<and> get_deleted_characters (Some BackspaceCharacter) old (push old c' BackspaceCharacter)
               = Some ([b_text b ! i], [b_chars b ! i])"
proof -
  let ?c = "current_content old"
  let ?nb = "join_blocks b b (int i) (int i + 1)"
  let ?c' = "?c\<lparr>blocks := replace_block ?nb (blocks ?c), sel_after := collapsed_at k (int i)\<rparr>"
  have dk: "distinct (block_keys ?c)" using wf by (simp add: wf_content_def)
  have rt: "replace_text ?c (create_selection_with_range k (int i) (int i + 1)) [] [] = Some ?c'"
    using replace_text_in_block [OF b dk, of "int i" "int i + 1" "[]" "[]"] by simp
  have kb: "b_key ?nb = k" using get_block_for_key_Some [OF b] by simp
  have lc: "length (b_chars b) = length (b_text b)" using get_block_wf [OF b wf] by (simp add: wf_block_def)
  have "length (b_text ?nb) \<noteq> length (b_text b)"
    using sel(2) by (simp add: join_blocks_def js_slice_nat js_slice_from_nat nat_add_distrib)
  then have "?c' \<noteq> ?c" using replace_block_changes [OF b kb] by metis
  then have "es_selection (push old ?c' BackspaceCharacter) = collapsed_at k (int i)"
    by (simp add: push_def)
  moreover have "js_slice (b_text b) (int i) (int i + 1) = [b_text b ! i]"
    "js_slice (b_chars b) (int i) (int i + 1) = [b_chars b ! i]"
    using sel(2) lc by (simp_all add: js_slice_nat nat_add_distrib take_Suc_conv_app_nth Cons_nth_drop_Suc)
  ultimately have "get_deleted_characters (Some BackspaceCharacter) old (push old ?c' BackspaceCharacter)
                   = Some ([b_text b ! i], [b_chars b ! i])"
    using b sel(1) by (simp add: get_deleted_characters_def selection_defs Let_def)
  then show ?thesis using rt by blast
qed

section \<open>Witnesses\<close>

text \<open>
  The sample block \<open>"abcd"\<close> has the style \<open>BOLD\<close> on its two middle characters.
\<close>

lemma get_contiguous_style_range_maximal_witness:
  "\<exists>st en. get_contiguous_style_range (\<lparr>b_key = 1, b_type = Unstyled, b_text = ''abcd'', b_chars = [\<lparr>cm_style = [], cm_entity = None\<rparr>, \<lparr>cm_style = [''BOLD''], cm_entity = None\<rparr>, \<lparr>cm_style = [''BOLD''], cm_entity = None\<rparr>, \<lparr>cm_style = [], cm_entity = None\<rparr>]\<rparr>) (has_style ''BOLD'') (int 1)
                   = Some \<lparr>range_block_key = b_key (\<lparr>b_key = 1, b_type = Unstyled, b_text = ''abcd'', b_chars = [\<lparr>cm_style = [], cm_entity = None\<rparr>, \<lparr>cm_style = [''BOLD''], cm_entity = None\<rparr>, \<lparr>cm_style = [''BOLD''], cm_entity = None\<rparr>, \<lparr>cm_style = [], cm_entity = None\<rparr>]\<rparr>), range_start = int st, range_end = int en\<rparr>
           \<and> st \<le> 1 \<and> 1 < en \<and> en \<le> length (b_chars (\<lparr>b_key = 1, b_type = Unstyled, b_text = ''abcd'', b_chars = [\<lparr>cm_style = [], cm_entity = None\<rparr>, \<lparr>cm_style = [''BOLD''], cm_entity = None\<rparr>, \<lparr>cm_style = [''BOLD''], cm_entity = None\<rparr>, \<lparr>cm_style = [], cm_entity = None\<rparr>]\<rparr>))
           \<and> (\<forall>j. st \<le> j \<and> j < en \<longrightarrow> has_style ''BOLD'' (b_chars (\<lparr>b_key = 1, b_type = Unstyled, b_text = ''abcd'', b_chars = [\<lparr>cm_style = [], cm_entity = None\<rparr>, \<lparr>cm_style = [''BOLD''], cm_entity = None\<rparr>, \<lparr>cm_style = [''BOLD''], cm_entity = None\<rparr>, \<lparr>cm_style = [], cm_entity = None\<rparr>]\<rparr>) ! j))
           \<and> (0 < st \<longrightarrow> \<not> has_style ''BOLD'' (b_chars (\<lparr>b_key = 1, b_type = Unstyled, b_text = ''abcd'', b_chars = [\<lparr>cm_style = [], cm_entity = None\<rparr>, \<lparr>cm_style = [''BOLD''], cm_entity = None\<rparr>, \<lparr>cm_style = [''BOLD''], cm_entity = None\<rparr>, \<lparr>cm_style = [], cm_entity = None\<rparr>]\<rparr>) ! (st - 1)))
           \<and> (en < length (b_chars (\<lparr>b_key = 1, b_type = Unstyled, b_text = ''abcd'', b_chars = [\<lparr>cm_style = [], cm_entity = None\<rparr>, \<lparr>cm_style = [''BOLD''], cm_entity = None\<rparr>, \<lparr>cm_style = [''BOLD''], cm_entity = None\<rparr>, \<lparr>cm_style = [], cm_entity = None\<rparr>]\<rparr>)) \<longrightarrow> \<not> has_style ''BOLD'' (b_chars (\<lparr>b_key = 1, b_type = Unstyled, b_text = ''abcd'', b_chars = [\<lparr>cm_style = [], cm_entity = None\<rparr>, \<lparr>cm_style = [''BOLD''], cm_entity = None\<rparr>, \<lparr>cm_style = [''BOLD''], cm_entity = None\<rparr>, \<lparr>cm_style = [], cm_entity = None\<rparr>]\<rparr>) ! en))"
  by (rule get_contiguous_style_range_maximal) (simp_all add: has_style_def)

lemma get_contiguous_style_range_total_witness:
  "\<exists>r. get_contiguous_style_range (\<lparr>b_key = 1, b_type = Unstyled, b_text = ''abcd'', b_chars = [\<lparr>cm_style = [], cm_entity = None\<rparr>, \<lparr>cm_style = [''BOLD''], cm_entity = None\<rparr>, \<lparr>cm_style = [''BOLD''], cm_entity = None\<rparr>, \<lparr>cm_style = [], cm_entity = None\<rparr>]\<rparr>) (has_style ''BOLD'') 3 = Some r"
  by (rule get_contiguous_style_range_total) simp_all

lemma get_contiguous_style_range_inverted_witness:
  "get_contiguous_style_range (\<lparr>b_key = 1, b_type = Unstyled, b_text = ''abcd'', b_chars = [\<lparr>cm_style = [], cm_entity = None\<rparr>, \<lparr>cm_style = [''BOLD''], cm_entity = None\<rparr>, \<lparr>cm_style = [''BOLD''], cm_entity = None\<rparr>, \<lparr>cm_style = [], cm_entity = None\<rparr>]\<rparr>) (has_style ''BOLD'') 0
   = Some \<lparr>range_block_key = 1, range_start = 1, range_end = 0\<rparr>"
  using get_contiguous_style_range_inverted [where b = "\<lparr>b_key = 1, b_type = Unstyled, b_text = ''abcd'', b_chars = [\<lparr>cm_style = [], cm_entity = None\<rparr>, \<lparr>cm_style = [''BOLD''], cm_entity = None\<rparr>, \<lparr>cm_style = [''BOLD''], cm_entity = None\<rparr>, \<lparr>cm_style = [], cm_entity = None\<rparr>]\<rparr>" and f = "has_style ''BOLD''" and i = 0]
  by (simp add: has_style_def)

lemma ranges_overlap_iff_witness:
  "ranges_overlap (0::int, 2) (1, 3) = (\<exists>x::int. 0 \<le> x \<and> x < 2 \<and> 1 \<le> x \<and> x < 3)"
  using ranges_overlap_iff [of "(0, 2)" "(1, 3)"] by simp

lemma strip_styles_from_block_range_witness:
  "strip_styles_from_block (\<lparr>blocks = [\<lparr>b_key = 1, b_type = Unstyled, b_text = ''abcd'', b_chars = [\<lparr>cm_style = [], cm_entity = None\<rparr>, \<lparr>cm_style = [''BOLD''], cm_entity = None\<rparr>, \<lparr>cm_style = [''BOLD''], cm_entity = None\<rparr>, \<lparr>cm_style = [], cm_entity = None\<rparr>]\<rparr>], entity_map = [], sel_after = collapsed_at 1 0\<rparr>) 1 (\<lambda>x. x = ''BOLD'') (int 1) (Some (int 3))
   = Some ((\<lparr>blocks = [\<lparr>b_key = 1, b_type = Unstyled, b_text = ''abcd'', b_chars = [\<lparr>cm_style = [], cm_entity = None\<rparr>, \<lparr>cm_style = [''BOLD''], cm_entity = None\<rparr>, \<lparr>cm_style = [''BOLD''], cm_entity = None\<rparr>, \<lparr>cm_style = [], cm_entity = None\<rparr>]\<rparr>], entity_map = [], sel_after = collapsed_at 1 0\<rparr>)\<lparr>blocks := replace_block
              ((\<lparr>b_key = 1, b_type = Unstyled, b_text = ''abcd'', b_chars = [\<lparr>cm_style = [], cm_entity = None\<rparr>, \<lparr>cm_style = [''BOLD''], cm_entity = None\<rparr>, \<lparr>cm_style = [''BOLD''], cm_entity = None\<rparr>, \<lparr>cm_style = [], cm_entity = None\<rparr>]\<rparr>)\<lparr>b_chars := map_chars_in (\<lambda>m. m\<lparr>cm_style := filter (\<lambda>x. \<not> x = ''BOLD'') (cm_style m)\<rparr>)
                               (int 1, int 3) (b_chars (\<lparr>b_key = 1, b_type = Unstyled, b_text = ''abcd'', b_chars = [\<lparr>cm_style = [], cm_entity = None\<rparr>, \<lparr>cm_style = [''BOLD''], cm_entity = None\<rparr>, \<lparr>cm_style = [''BOLD''], cm_entity = None\<rparr>, \<lparr>cm_style = [], cm_entity = None\<rparr>]\<rparr>))\<rparr>) (blocks (\<lparr>blocks = [\<lparr>b_key = 1, b_type = Unstyled, b_text = ''abcd'', b_chars = [\<lparr>cm_style = [], cm_entity = None\<rparr>, \<lparr>cm_style = [''BOLD''], cm_entity = None\<rparr>, \<lparr>cm_style = [''BOLD''], cm_entity = None\<rparr>, \<lparr>cm_style = [], cm_entity = None\<rparr>]\<rparr>], entity_map = [], sel_after = collapsed_at 1 0\<rparr>))\<rparr>)"
  by (rule strip_styles_from_block_range) (simp_all add: doc_simps)

lemma get_text_from_selection_single_block_witness:
  "get_text_from_selection \<lparr>current_content = \<lparr>blocks = [\<lparr>b_key = 1, b_type = Unstyled, b_text = ''abcd'', b_chars = [\<lparr>cm_style = [], cm_entity = None\<rparr>, \<lparr>cm_style = [''BOLD''], cm_entity = None\<rparr>, \<lparr>cm_style = [''BOLD''], cm_entity = None\<rparr>, \<lparr>cm_style = [], cm_entity = None\<rparr>]\<rparr>], entity_map = [], sel_after = collapsed_at 1 0\<rparr>, es_selection = \<lparr>anchor_key = 1, anchor_offset = 1, focus_key = 1, focus_offset = 3, is_backward = False\<rparr>, last_change = None,
                            allow_undo = True, undo_stack = []\<rparr> ''\<newline>''
   = Some (''bc'', [\<lparr>cm_style = [''BOLD''], cm_entity = None\<rparr>, \<lparr>cm_style = [''BOLD''], cm_entity = None\<rparr>])"
  using get_text_from_selection_single_block
    [where es = "\<lparr>current_content = \<lparr>blocks = [\<lparr>b_key = 1, b_type = Unstyled, b_text = ''abcd'', b_chars = [\<lparr>cm_style = [], cm_entity = None\<rparr>, \<lparr>cm_style = [''BOLD''], cm_entity = None\<rparr>, \<lparr>cm_style = [''BOLD''], cm_entity = None\<rparr>, \<lparr>cm_style = [], cm_entity = None\<rparr>]\<rparr>], entity_map = [], sel_after = collapsed_at 1 0\<rparr>, es_selection = \<lparr>anchor_key = 1, anchor_offset = 1, focus_key = 1, focus_offset = 3, is_backward = False\<rparr>, last_change = None,
                  allow_undo = True, undo_stack = []\<rparr>" and k = 1 and b = "\<lparr>b_key = 1, b_type = Unstyled, b_text = ''abcd'', b_chars = [\<lparr>cm_style = [], cm_entity = None\<rparr>, \<lparr>cm_style = [''BOLD''], cm_entity = None\<rparr>, \<lparr>cm_style = [''BOLD''], cm_entity = None\<rparr>, \<lparr>cm_style = [], cm_entity = None\<rparr>]\<rparr>" and d = "''\<newline>''"]
  by (simp add: doc_simps js_slice_nat)


lemma near_offset_adjacent_style_witness:
  "\<exists>rs r. get_contiguous_style_ranges_near_offset (\<lparr>b_key = 1, b_type = Unstyled, b_text = ''abcd'', b_chars = [\<lparr>cm_style = [], cm_entity = None\<rparr>, \<lparr>cm_style = [''BOLD''], cm_entity = None\<rparr>, \<lparr>cm_style = [''BOLD''], cm_entity = None\<rparr>, \<lparr>cm_style = [], cm_entity = None\<rparr>]\<rparr>) 3 (\<lambda>_. True) = Some rs
     \<and> map_of rs ''BOLD'' = Some r \<and> get_contiguous_style_range (\<lparr>b_key = 1, b_type = Unstyled, b_text = ''abcd'', b_chars = [\<lparr>cm_style = [], cm_entity = None\<rparr>, \<lparr>cm_style = [''BOLD''], cm_entity = None\<rparr>, \<lparr>cm_style = [''BOLD''], cm_entity = None\<rparr>, \<lparr>cm_style = [], cm_entity = None\<rparr>]\<rparr>) (has_style ''BOLD'') (3 - 1) = Some r
     \<and> range_end r = 3"
  by (rule near_offset_adjacent_style) (simp_all add: inline_style_at_def imm_get_def)

lemma get_inserted_after_insert_witness:
  "\<exists>c'. insert_text (current_content (plain_state [plain_block 1 Unstyled ''ab''] (collapsed_at 1 1))) (collapsed_at 1 1) ''xy'' = Some c'
     \<and> get_inserted_characters (Some InsertCharacters) (plain_state [plain_block 1 Unstyled ''ab''] (collapsed_at 1 1))
         (push (plain_state [plain_block 1 Unstyled ''ab''] (collapsed_at 1 1)) c' InsertCharacters) = Some ''xy''"
  by (rule get_inserted_after_insert [where b = "plain_block 1 Unstyled ''ab''"]) (simp_all add: doc_simps)


lemma get_deleted_after_backspace_witness:
  "\<exists>c'. replace_text (current_content (plain_state [plain_block 1 Unstyled ''abc''] (collapsed_at 1 2)))
          (create_selection_with_range 1 (int 1) (int 1 + 1)) [] [] = Some c'
     \<and> get_deleted_characters (Some BackspaceCharacter) (plain_state [plain_block 1 Unstyled ''abc''] (collapsed_at 1 2))
         (push (plain_state [plain_block 1 Unstyled ''abc''] (collapsed_at 1 2)) c' BackspaceCharacter)
       = Some ([b_text (plain_block 1 Unstyled ''abc'') ! 1], [b_chars (plain_block 1 Unstyled ''abc'') ! 1])"
  by (rule get_deleted_after_backspace) (simp_all add: doc_simps)

end
