(* ===== verification/Inline_Entities.thy ===== *)
theory Inline_Entities
  imports Style_Queries
begin

text \<open>
  The inline entity reconciler of \<open>src/app/components/Editor.tsx\<close> (spec 4.3): the
  \<open>stylingEntities\<close> registry with its inline-code pattern, \<open>processChange\<close>, and the two
  hooks of the plugin, \<open>handleBeforeInput\<close> and \<open>onChange\<close>.  The global regular
  expression \<open>/`([^`]+)`/g\<close> run by \<open>exec\<close> until it returns \<open>null\<close> is the recursive
  scan \<open>code_spans\<close>, which restarts after each match at the match's end.
\<close>

section \<open>The inline-code pattern\<close>

definition backtick :: char where
  "backtick = CHR ''`''"

text \<open>
  The leftmost match of \<open>`([^`]+)`\<close> from each position: a backtick, one or more other
  characters, and the next backtick.  A backtick that is followed by another one or by no
  other backtick starts no match, and the search moves one character on.  Each span is
  (index, length of the whole match).
\<close>

function code_spans :: "string \<Rightarrow> nat \<Rightarrow> (nat \<times> nat) list" where
  "code_spans [] i = []"
| "code_spans (c # cs) i =
     (let body = takeWhile (\<lambda>x. x \<noteq> backtick) cs
      in if c = backtick \<and> body \<noteq> [] \<and> length body < length cs
         then (i, length body + 2) # code_spans (drop (Suc (length body)) cs) (i + length body + 2)
         else code_spans cs (Suc i))"
  by pat_completeness auto
termination
  by (relation "measure (\<lambda>(cs, i). length cs)") auto

section \<open>The reconciler\<close>

definition styling_prefix :: string where
  "styling_prefix = ''core.styling''"

definition inline_code_entity :: entity where
  "inline_code_entity = \<lparr>ent_type = ''core.styling.inlineCode'', ent_mutability = Mutable\<rparr>"

text \<open>
  One match of the scan: \<open>createEntity\<close>, then \<open>applyEntity\<close> of the new key over the
  match, on the caret selection with its offsets replaced by the match bounds.
\<close>

definition apply_code_span :: "selection \<Rightarrow> content \<Rightarrow> nat \<times> nat \<Rightarrow> content option" where
  "apply_code_span s c sp =
     (case sp of (i, l) \<Rightarrow>
        case create_entity c inline_code_entity of (c', ek) \<Rightarrow>
          apply_entity c' (s\<lparr>anchor_offset := int i, focus_offset := int (i + l)\<rparr>) (Some ek))"

text \<open>
  \<open>processChange(editorState, insertedCharacter)\<close>: strip the styling entities of the
  caret block, insert the pending character if there is one, scan the block's new text and
  apply a fresh entity to every match, push the content as \<open>apply-entity\<close>; when that
  changed the state, move the caret one character on after an insertion, or restore it.
\<close>

definition process_change :: "editor_state \<Rightarrow> char option \<Rightarrow> editor_state option" where
  "process_change es ins =
     (let s = es_selection es; k = start_key s in
      do {
        c1 \<leftarrow> strip_entities_from_block (current_content es) k (\<lambda>e. starts_with (ent_type e) styling_prefix);
        c2 \<leftarrow> (case ins of None \<Rightarrow> Some c1 | Some ch \<Rightarrow> insert_text c1 s [ch]);
        t \<leftarrow> block_text c2 k;
        c3 \<leftarrow> fold_option (apply_code_span s) c2 (code_spans t 0);
        let es1 = push es c3 ApplyEntity;
        Some (if es1 = es then es1
              else case ins of
                     Some _ \<Rightarrow> force_selection es1 (s\<lparr>anchor_offset := anchor_offset s + 1,
                                                        focus_offset := anchor_offset s + 1\<rparr>)
                   | None \<Rightarrow> force_selection es1 s)
      })"

section \<open>The plugin hooks\<close>

datatype handled = Handled | NotHandled

text \<open>
  \<open>handleBeforeInput\<close>: the reconciler runs with the typed character; when it changed
  the state, the plugin installs the new state and reports the input handled.
\<close>

definition handle_before_input :: "char \<Rightarrow> editor_state \<Rightarrow> (handled \<times> editor_state) option" where
  "handle_before_input ch es =
     map_option (\<lambda>es'. if es \<noteq> es' then (Handled, es') else (NotHandled, es)) (process_change es (Some ch))"

text \<open>\<open>onChange\<close>: only a backspace triggers the reconciler.\<close>

definition entity_on_change :: "editor_state \<Rightarrow> editor_state option" where
  "entity_on_change es =
     (if last_change es = Some BackspaceCharacter then process_change es None else Some es)"


section \<open>Reading the reconciled block\<close>

text \<open>
  Notions the lemmas use to state what the reconciler leaves behind: whether a run's entity
  is one the filter strips, the character list with the entities of given ranges cleared,
  and whether a character carries an entity of the \<open>core.styling\<close> family.
\<close>

definition entity_kept :: "content \<Rightarrow> (entity \<Rightarrow> bool) \<Rightarrow> entity_key option \<Rightarrow> bool" where
  "entity_kept c flt v = (case v of None \<Rightarrow> False | Some ek \<Rightarrow> flt (entity_map c ! ek))"

definition clear_entities_in :: "(nat \<times> nat) list \<Rightarrow> char_meta list \<Rightarrow> char_meta list" where
  "clear_entities_in rs cs =
     map (\<lambda>(p, m). if \<exists>(st, en) \<in> set rs. st \<le> p \<and> p < en then m\<lparr>cm_entity := None\<rparr> else m)
       (zip [0..<length cs] cs)"

definition has_styling_entity :: "content \<Rightarrow> char_meta \<Rightarrow> bool" where
  "has_styling_entity c m =
     (case cm_entity m of None \<Rightarrow> False
      | Some ek \<Rightarrow> ek < length (entity_map c) \<and> starts_with (ent_type (entity_map c ! ek)) styling_prefix)"


section \<open>The scan\<close>

lemma code_spans_bounds:
  "(i, l) \<in> set (code_spans t j) \<Longrightarrow> j \<le> i \<and> 3 \<le> l \<and> i + l \<le> j + length t"
proof (induction t j rule: code_spans.induct)
  case (1 i)
  then show ?case by simp
next
  case (2 c cs j)
  let ?body = "takeWhile (\<lambda>x. x \<noteq> backtick) cs"
  show ?case
  proof (cases "c = backtick \<and> ?body \<noteq> [] \<and> length ?body < length cs")
    case True
    then have "(i, l) = (j, length ?body + 2)
               \<or> (i, l) \<in> set (code_spans (drop (Suc (length ?body)) cs) (j + length ?body + 2))"
      using 2(3) by (simp add: Let_def)
    then show ?thesis
    proof
      assume "(i, l) = (j, length ?body + 2)"
      then show ?thesis using True by (cases ?body) auto
    next
      assume "(i, l) \<in> set (code_spans (drop (Suc (length ?body)) cs) (j + length ?body + 2))"
      then show ?thesis using 2(1) True by (auto simp: Let_def)
    qed
  next
    case False
    then show ?thesis using 2(2,3) by (auto simp: Let_def)
  qed
qed


lemma code_span_text:
  "(i, l) \<in> set (code_spans t j) \<Longrightarrow>
   \<exists>body. take l (drop (i - j) t) = backtick # body @ [backtick] \<and> body \<noteq> [] \<and> backtick \<notin> set body"
proof (induction t j rule: code_spans.induct)
  case (1 i)
  then show ?case by simp
next
  case (2 c cs j)
  let ?body = "takeWhile (\<lambda>x. x \<noteq> backtick) cs"
  show ?case
  proof (cases "c = backtick \<and> ?body \<noteq> [] \<and> length ?body < length cs")
    case True
    then have "(i, l) = (j, length ?body + 2)
               \<or> (i, l) \<in> set (code_spans (drop (Suc (length ?body)) cs) (j + length ?body + 2))"
      using 2(3) by (simp add: Let_def)
    then show ?thesis
    proof
      assume il: "(i, l) = (j, length ?body + 2)"
      have "cs ! length ?body = backtick"
        using True nth_length_takeWhile [of "\<lambda>x. x \<noteq> backtick" cs] by simp
      then have "take (Suc (length ?body)) cs = ?body @ [backtick]"
        using True by (simp add: take_Suc_conv_app_nth takeWhile_eq_take [symmetric])
      then have "take l (drop (i - j) (c # cs)) = backtick # ?body @ [backtick]"
        using il True by simp
      moreover have "backtick \<notin> set ?body" by (auto dest: set_takeWhileD)
      ultimately show ?thesis using True by blast
    next
      assume r: "(i, l) \<in> set (code_spans (drop (Suc (length ?body)) cs) (j + length ?body + 2))"
      then have "j + length ?body + 2 \<le> i" using code_spans_bounds by blast
      then have "i - j = Suc (Suc (length ?body) + (i - (j + length ?body + 2)))" by arith
      then have "drop (i - j) (c # cs) = drop (i - (j + length ?body + 2)) (drop (Suc (length ?body)) cs)"
        by (simp add: add.commute)
      then show ?thesis using 2(1) True r by (simp add: Let_def)
    qed
  next
    case False
    then have r: "(i, l) \<in> set (code_spans cs (Suc j))" using 2(3) by (auto simp: Let_def)
    then have "Suc j \<le> i" using code_spans_bounds by blast
    then have "drop (i - j) (c # cs) = drop (i - Suc j) cs" by (simp add: drop_Cons')
    then show ?thesis using 2(2) False r by (simp add: Let_def)
  qed
qed

section \<open>Stripping the styling entities\<close>

lemma runs_from_sound:
  "(v, st, en) \<in> set (runs_from xs i) \<Longrightarrow>
   i \<le> st \<and> st < en \<and> en \<le> i + length xs \<and> (\<forall>p. st \<le> p \<and> p < en \<longrightarrow> xs ! (p - i) = v)"
proof (induction xs i rule: runs_from.induct)
  case (1 i)
  then show ?case by simp
next
  case (2 x xs i)
  let ?n = "length (takeWhile (\<lambda>y. y = x) xs)"
  have n: "?n \<le> length xs" by (rule length_takeWhile_le)
  from 2(2) have "(v, st, en) = (x, i, i + Suc ?n) \<or> (v, st, en) \<in> set (runs_from (drop ?n xs) (i + Suc ?n))"
    by (simp add: Let_def)
  then show ?case
  proof
    assume e: "(v, st, en) = (x, i, i + Suc ?n)"
    have "(x # xs) ! (p - i) = x" if "i \<le> p" "p < i + Suc ?n" for p
    proof (cases "p = i")
      case False
      then have "p - i - 1 < ?n" using that by simp
      then have "xs ! (p - i - 1) = x"
        using takeWhile_nth_P [of "p - i - 1" "\<lambda>y. y = x" xs] by simp
      then show ?thesis using False that by (simp add: nth_Cons')
    qed simp
    then show ?thesis using e n by auto
  next
    assume r: "(v, st, en) \<in> set (runs_from (drop ?n xs) (i + Suc ?n))"
    have ih: "i + Suc ?n \<le> st \<and> st < en \<and> en \<le> i + Suc ?n + length (drop ?n xs)
              \<and> (\<forall>p. st \<le> p \<and> p < en \<longrightarrow> drop ?n xs ! (p - (i + Suc ?n)) = v)"
      using 2(1) [OF refl r] .
    have "(x # xs) ! (p - i) = v" if "st \<le> p" "p < en" for p
    proof -
      from ih that have "drop ?n xs ! (p - (i + Suc ?n)) = v" by blast
      then have "xs ! (?n + (p - (i + Suc ?n))) = v" using n by simp
      moreover have "p - i = Suc (?n + (p - (i + Suc ?n)))" using that ih by arith
      ultimately show ?thesis by simp
    qed
    then show ?thesis using ih n by auto
  qed
qed

lemma runs_from_cover:
  "p < length xs \<Longrightarrow> \<exists>st en. (xs ! p, st, en) \<in> set (runs_from xs i) \<and> st \<le> i + p \<and> i + p < en"
proof (induction xs i arbitrary: p rule: runs_from.induct)
  case (1 i)
  then show ?case by simp
next
  case (2 x xs i)
  let ?n = "length (takeWhile (\<lambda>y. y = x) xs)"
  have n: "?n \<le> length xs" by (rule length_takeWhile_le)
  show ?case
  proof (cases "p \<le> ?n")
    case True
    have "(x # xs) ! p = x"
    proof (cases p)
      case (Suc q)
      then have "q < ?n" using True by simp
      then show ?thesis using Suc takeWhile_nth_P [of q "\<lambda>y. y = x" xs] by simp
    qed simp
    then show ?thesis using True
      by (intro exI [of _ i] exI [of _ "i + Suc ?n"]) (auto simp: Let_def)
  next
    case False
    then have q: "p - Suc ?n < length (drop ?n xs)" using 2(2) by auto
    obtain st en where "(drop ?n xs ! (p - Suc ?n), st, en) \<in> set (runs_from (drop ?n xs) (i + Suc ?n))"
      "st \<le> i + Suc ?n + (p - Suc ?n)" "i + Suc ?n + (p - Suc ?n) < en"
      using 2(1) [OF refl q] by blast
    moreover have "drop ?n xs ! (p - Suc ?n) = (x # xs) ! p" using False n by (simp add: nth_Cons')
    moreover have "i + Suc ?n + (p - Suc ?n) = i + p" using False by simp
    ultimately show ?thesis by (auto simp: Let_def)
  qed
qed

lemma entity_runs_kept_eq:
  "\<forall>(v, st, en) \<in> set rs. pred_option (\<lambda>ek. ek < length (entity_map c)) v \<Longrightarrow>
   entity_runs_kept c flt rs
   = Some (map (\<lambda>(v, st, en). (st, en)) (filter (\<lambda>(v, st, en). entity_kept c flt v) rs))"
proof (induction rs)
  case Nil
  then show ?case by simp
next
  case (Cons r rs)
  obtain v st en where r: "r = (v, st, en)" by (cases r)
  show ?case using Cons r by (cases v) (auto simp: entity_kept_def get_entity_def)
qed

lemma length_clear_entities_in [simp]: "length (clear_entities_in rs cs) = length cs"
  by (simp add: clear_entities_in_def)

lemma nth_clear_entities_in:
  "p < length cs \<Longrightarrow>
   clear_entities_in rs cs ! p
   = (if \<exists>(st, en) \<in> set rs. st \<le> p \<and> p < en then (cs ! p)\<lparr>cm_entity := None\<rparr> else cs ! p)"
  by (simp add: clear_entities_in_def)

lemma clear_entities_in_Nil [simp]: "clear_entities_in [] cs = cs"
  by (rule nth_equalityI) (simp_all add: nth_clear_entities_in)

lemma clear_entities_in_step:
  "clear_entities_in rs (map_chars_in (\<lambda>m. m\<lparr>cm_entity := None\<rparr>) (int st, int en) cs)
   = clear_entities_in ((st, en) # rs) cs"
  by (rule nth_equalityI) (auto simp: nth_clear_entities_in nth_map_chars_in)

lemma fold_clear_entities:
  assumes "get_block_for_key c k = Some b" "distinct (block_keys c)"
  shows "\<exists>c'. fold_option (\<lambda>c' (st, en). apply_entity c' (create_selection_with_range k (int st) (int en)) None) c rs
               = Some c'
             \<and> blocks c' = replace_block (b\<lparr>b_chars := clear_entities_in rs (b_chars b)\<rparr>) (blocks c)
             \<and> entity_map c' = entity_map c"
  using assms
proof (induction rs arbitrary: c b)
  case Nil
  then show ?case
    using get_block_for_key_Some [OF Nil(1)] replace_block_self [of "blocks c" b]
    by (simp add: block_keys_def)
next
  case (Cons r rs)
  obtain st en where r: "r = (st, en)" by (cases r)
  have kb: "b_key b = k" using get_block_for_key_Some [OF Cons(2)] by simp
  let ?b1 = "b\<lparr>b_chars := map_chars_in (\<lambda>m. m\<lparr>cm_entity := None\<rparr>) (int st, int en) (b_chars b)\<rparr>"
  let ?c1 = "c\<lparr>blocks := replace_block ?b1 (blocks c), sel_after := create_selection_with_range k (int st) (int en)\<rparr>"
  have a: "apply_entity c (create_selection_with_range k (int st) (int en)) None = Some ?c1"
    using modify_blocks_block [OF Cons(2,3), of "create_selection_with_range k (int st) (int en)"
        "\<lambda>r x. x\<lparr>b_chars := map_chars_in (\<lambda>m. m\<lparr>cm_entity := None\<rparr>) r (b_chars x)\<rparr>"] kb
    by (simp add: apply_entity_def modify_chars_def slice_bounds_def selection_defs)
  have "get_block_for_key ?c1 k = Some ?b1" using Cons(2) kb by simp
  moreover have "distinct (block_keys ?c1)" using Cons(3) by simp
  ultimately obtain c' where "fold_option (\<lambda>c' (st, en). apply_entity c' (create_selection_with_range k (int st) (int en)) None) ?c1 rs = Some c'"
    "blocks c' = replace_block (?b1\<lparr>b_chars := clear_entities_in rs (b_chars ?b1)\<rparr>) (blocks ?c1)"
    "entity_map c' = entity_map ?c1"
    using Cons.IH by blast
  then show ?case using a r kb by (simp add: clear_entities_in_step)
qed

lemma kept_runs_cover:
  "p < length xs \<Longrightarrow>
   (\<exists>(st, en) \<in> set (map (\<lambda>(v, st, en). (st, en)) (filter (\<lambda>(v, st, en). P v) (runs_from xs 0))).
      st \<le> p \<and> p < en) \<longleftrightarrow> P (xs ! p)"
proof
  assume "\<exists>(st, en) \<in> set (map (\<lambda>(v, st, en). (st, en)) (filter (\<lambda>(v, st, en). P v) (runs_from xs 0))).
            st \<le> p \<and> p < en"
  then obtain v st en where "(v, st, en) \<in> set (runs_from xs 0)" "P v" "st \<le> p" "p < en" by auto
  then show "P (xs ! p)" using runs_from_sound [of v st en xs 0] by auto
next
  assume "p < length xs" "P (xs ! p)"
  then obtain st en where "(xs ! p, st, en) \<in> set (runs_from xs 0)" "st \<le> p" "p < en"
    using runs_from_cover [of p xs 0] by auto
  with \<open>P (xs ! p)\<close> show "\<exists>(st, en) \<in> set (map (\<lambda>(v, st, en). (st, en)) (filter (\<lambda>(v, st, en). P v) (runs_from xs 0))).
            st \<le> p \<and> p < en" by force
qed

lemma strip_entities_eq:
  assumes wf: "wf_content c" and b: "get_block_for_key c k = Some b"
  shows "\<exists>c'. strip_entities_from_block c k flt = Some c'
             \<and> blocks c' = replace_block (b\<lparr>b_chars := map (\<lambda>m. if entity_kept c flt (cm_entity m)
                                                            then m\<lparr>cm_entity := None\<rparr> else m) (b_chars b)\<rparr>)
                                        (blocks c)
             \<and> entity_map c' = entity_map c"
proof -
  let ?xs = "map cm_entity (b_chars b)"
  let ?rs = "map (\<lambda>(v, st, en). (st, en)) (filter (\<lambda>(v, st, en). entity_kept c flt v) (runs_from ?xs 0))"
  have kb: "b_key b = k" using get_block_for_key_Some [OF b] by simp
  have wb: "list_all (wf_meta (length (entity_map c))) (b_chars b)"
    using get_block_wf [OF b wf] by (simp add: wf_block_def)
  have "pred_option (\<lambda>ek. ek < length (entity_map c)) v" if "(v, st, en) \<in> set (entity_runs b)" for v st en
  proof -
    have "st < length ?xs" "?xs ! st = v"
      using runs_from_sound [of v st en ?xs 0] that by (auto simp: entity_runs_def)
    then show ?thesis using wb by (cases v) (auto simp: list_all_length wf_meta_def)
  qed
  then have "\<forall>(v, st, en) \<in> set (entity_runs b). pred_option (\<lambda>ek. ek < length (entity_map c)) v"
    by blast
  then have kept: "entity_runs_kept c flt (entity_runs b) = Some ?rs"
    unfolding entity_runs_def by (rule entity_runs_kept_eq)
  have d: "distinct (block_keys c)" using wf by (simp add: wf_content_def)
  obtain c' where f: "fold_option (\<lambda>c' (st, en). apply_entity c' (create_selection_with_range k (int st) (int en)) None) c ?rs = Some c'"
    "blocks c' = replace_block (b\<lparr>b_chars := clear_entities_in ?rs (b_chars b)\<rparr>) (blocks c)"
    "entity_map c' = entity_map c"
    using fold_clear_entities [OF b d] by blast
  have "clear_entities_in ?rs (b_chars b)
        = map (\<lambda>m. if entity_kept c flt (cm_entity m) then m\<lparr>cm_entity := None\<rparr> else m) (b_chars b)"
    by (rule nth_equalityI) (simp_all add: nth_clear_entities_in kept_runs_cover [where xs = ?xs, simplified])
  then show ?thesis
    using f kept b kb by (simp add: strip_entities_from_block_def)
qed


lemma strip_entities_wf:
  "strip_entities_from_block c k flt = Some c' \<Longrightarrow> wf_content c \<Longrightarrow> wf_content c'"
  unfolding strip_entities_from_block_def
  by (auto simp: bind_eq_Some_conv elim!: fold_option_invariant intro: apply_entity_wf)

lemma strip_entities_text:
  assumes wf: "wf_content c" and b: "get_block_for_key c k = Some b"
  shows "\<exists>c1 b1. strip_entities_from_block c k flt = Some c1 \<and> get_block_for_key c1 k = Some b1
                 \<and> b_text b1 = b_text b"
proof -
  let ?b1 = "b\<lparr>b_chars := map (\<lambda>m. if entity_kept c flt (cm_entity m) then m\<lparr>cm_entity := None\<rparr> else m) (b_chars b)\<rparr>"
  obtain c' where c': "strip_entities_from_block c k flt = Some c'" "blocks c' = replace_block ?b1 (blocks c)"
    using strip_entities_eq [OF wf b] by blast
  have "get_block_for_key c' k = Some ?b1"
    using c' get_block_for_key_Some [OF b] by (auto simp: get_block_for_key_def find_replace_block)
  then show ?thesis using c' by auto
qed

lemma strip_styling_clean:
  assumes wf: "wf_content c" and b: "get_block_for_key c k = Some b"
    and st: "strip_entities_from_block c k (\<lambda>e. starts_with (ent_type e) styling_prefix) = Some c1"
  shows "\<exists>b1. get_block_for_key c1 k = Some b1 \<and> (\<forall>m \<in> set (b_chars b1). \<not> has_styling_entity c1 m)"
proof -
  let ?flt = "\<lambda>e. starts_with (ent_type e) styling_prefix"
  let ?b1 = "b\<lparr>b_chars := map (\<lambda>m. if entity_kept c ?flt (cm_entity m) then m\<lparr>cm_entity := None\<rparr> else m) (b_chars b)\<rparr>"
  obtain c' where c': "strip_entities_from_block c k ?flt = Some c'"
    "blocks c' = replace_block ?b1 (blocks c)" "entity_map c' = entity_map c"
    using strip_entities_eq [OF wf b] by blast
  have kb: "b_key b = k" using get_block_for_key_Some [OF b] by simp
  have "get_block_for_key c1 k = Some ?b1"
    using c' st get_block_for_key_Some [OF b] kb by (auto simp: get_block_for_key_def find_replace_block)
  moreover have "\<not> has_styling_entity c1 m" if "m \<in> set (b_chars ?b1)" for m
    using that c' st by (auto simp: has_styling_entity_def entity_kept_def split: option.splits)
  ultimately show ?thesis by blast
qed

section \<open>Applying the spans\<close>

lemma inline_code_styling: "starts_with (ent_type inline_code_entity) styling_prefix"
  by (simp add: inline_code_entity_def styling_prefix_def starts_with_def)

lemma has_styling_entity_append:
  "wf_meta (length (entity_map c)) m \<Longrightarrow>
   has_styling_entity (c\<lparr>entity_map := entity_map c @ [e]\<rparr>) m = has_styling_entity c m"
  by (auto simp: has_styling_entity_def wf_meta_def nth_append split: option.splits)

lemma apply_code_span_step:
  assumes wf: "wf_content c" and b: "get_block_for_key c k = Some b"
    and s: "anchor_key s = k" "focus_key s = k" "\<not> is_backward s"
  shows "\<exists>c' b'. apply_code_span s c (i, l) = Some c' \<and> wf_content c'
           \<and> get_block_for_key c' k = Some b' \<and> b_text b' = b_text b
           \<and> length (b_chars b') = length (b_chars b)
           \<and> (\<forall>p < length (b_chars b). has_styling_entity c' (b_chars b' ! p)
                 \<longleftrightarrow> has_styling_entity c (b_chars b ! p) \<or> i \<le> p \<and> p < i + l)"
proof -
  let ?ek = "length (entity_map c)"
  let ?c1 = "c\<lparr>entity_map := entity_map c @ [inline_code_entity]\<rparr>"
  let ?s = "s\<lparr>anchor_offset := int i, focus_offset := int (i + l)\<rparr>"
  let ?f = "\<lambda>m. m\<lparr>cm_entity := Some ?ek\<rparr>"
  let ?b' = "b\<lparr>b_chars := map_chars_in ?f (int i, int (i + l)) (b_chars b)\<rparr>"
  let ?c' = "?c1\<lparr>blocks := replace_block ?b' (blocks ?c1), sel_after := ?s\<rparr>"
  have kb: "b_key b = k" using get_block_for_key_Some [OF b] by simp
  have d: "distinct (block_keys ?c1)" using wf by (simp add: wf_content_def block_keys_def)
  have b1: "get_block_for_key ?c1 k = Some b" using b by (simp add: get_block_for_key_def)
  have "slice_bounds ?s b = (int i, int (i + l))"
    using s kb by (simp add: slice_bounds_def selection_defs)
  then have ap: "apply_code_span s c (i, l) = Some ?c'"
    using modify_blocks_block [OF b1 d, of ?s "\<lambda>r x. x\<lparr>b_chars := map_chars_in ?f r (b_chars x)\<rparr>"] s
    by (simp add: apply_code_span_def create_entity_def apply_entity_def modify_chars_def)
  have "wf_content ?c1" using create_entity_wf [OF wf, of inline_code_entity] by (simp add: create_entity_def)
  then have wf': "wf_content ?c'"
    using apply_entity_wf [of ?c1 ?s "Some ?ek" ?c'] ap
    by (simp add: apply_code_span_def create_entity_def)
  have g: "get_block_for_key ?c' k = Some ?b'"
    using get_block_for_key_Some [OF b] kb by (auto simp: get_block_for_key_def find_replace_block)
  have wb: "list_all (wf_meta ?ek) (b_chars b)"
    using get_block_wf [OF b wf] by (simp add: wf_block_def)
  have "has_styling_entity ?c' (b_chars ?b' ! p) \<longleftrightarrow> has_styling_entity c (b_chars b ! p) \<or> i \<le> p \<and> p < i + l"
    if "p < length (b_chars b)" for p
  proof (cases "i \<le> p \<and> p < i + l")
    case True
    then show ?thesis using that inline_code_styling
      by (simp add: nth_map_chars_in has_styling_entity_def)
  next
    case False
    have "wf_meta ?ek (b_chars b ! p)" using wb that by (simp add: list_all_length)
    then have "has_styling_entity ?c1 (b_chars b ! p) = has_styling_entity c (b_chars b ! p)"
      by (rule has_styling_entity_append)
    moreover have "has_styling_entity ?c' m = has_styling_entity ?c1 m" for m
      by (simp add: has_styling_entity_def split: option.split)
    moreover have "b_chars ?b' ! p = b_chars b ! p" using False that by (auto simp: nth_map_chars_in)
    ultimately show ?thesis using False by auto
  qed
  then show ?thesis using ap wf' g by auto
qed

lemma fold_code_spans:
  assumes "wf_content c" "get_block_for_key c k = Some b"
    and s: "anchor_key s = k" "focus_key s = k" "\<not> is_backward s"
  shows "\<exists>c' b'. fold_option (apply_code_span s) c sps = Some c' \<and> wf_content c'
           \<and> get_block_for_key c' k = Some b' \<and> b_text b' = b_text b
           \<and> length (b_chars b') = length (b_chars b)
           \<and> (\<forall>p < length (b_chars b). has_styling_entity c' (b_chars b' ! p)
                 \<longleftrightarrow> has_styling_entity c (b_chars b ! p) \<or> (\<exists>(i, l) \<in> set sps. i \<le> p \<and> p < i + l))"
  using assms(1,2)
proof (induction sps arbitrary: c b)
  case Nil
  then show ?case by auto
next
  case (Cons sp sps)
  obtain i l where sp: "sp = (i, l)" by (cases sp)
  obtain c1 b1 where c1: "apply_code_span s c (i, l) = Some c1" "wf_content c1"
    "get_block_for_key c1 k = Some b1" "b_text b1 = b_text b" "length (b_chars b1) = length (b_chars b)"
    and h1: "\<forall>p < length (b_chars b). has_styling_entity c1 (b_chars b1 ! p)
                 \<longleftrightarrow> has_styling_entity c (b_chars b ! p) \<or> i \<le> p \<and> p < i + l"
    using apply_code_span_step [OF Cons(2,3) s, of i l] by blast
  obtain c' b' where c': "fold_option (apply_code_span s) c1 sps = Some c'" "wf_content c'"
    "get_block_for_key c' k = Some b'" "b_text b' = b_text b1" "length (b_chars b') = length (b_chars b1)"
    and h': "\<forall>p < length (b_chars b1). has_styling_entity c' (b_chars b' ! p)
                 \<longleftrightarrow> has_styling_entity c1 (b_chars b1 ! p) \<or> (\<exists>(i, l) \<in> set sps. i \<le> p \<and> p < i + l)"
    using Cons.IH [OF c1(2,3)] by blast
  show ?case
    using c1 c' h1 h' sp by auto
qed

lemma insert_char_clean:
  assumes wf: "wf_content c" and b: "get_block_for_key c k = Some b"
    and clean: "\<forall>m \<in> set (b_chars b). \<not> has_styling_entity c m"
    and s: "anchor_key s = k" "focus_key s = k" "\<not> is_backward s" "is_collapsed s"
    and ins: "insert_text c s [ch] = Some c'"
  shows "wf_content c' \<and> (\<exists>b'. get_block_for_key c' k = Some b' \<and> (\<forall>m \<in> set (b_chars b'). \<not> has_styling_entity c' m))"
proof -
  let ?a = "anchor_offset s"
  let ?m = "\<lparr>cm_style = [], cm_entity = None\<rparr>"
  let ?nb = "splice_block b ?a [ch] [?m]"
  have "s = create_selection_with_range k ?a ?a"
    using s by (cases s) (simp add: create_selection_with_range_def is_collapsed_def)
  then have rt: "insert_text c s [ch] = Some (c\<lparr>blocks := replace_block ?nb (blocks c),
                                                sel_after := collapsed_at k (?a + 1)\<rparr>)"
    using replace_text_in_block [OF b, of ?a ?a "[ch]" "[]"] wf s(4)
    by (simp add: insert_text_def wf_content_def)
  have kb: "b_key b = k" using get_block_for_key_Some [OF b] by simp
  have "get_block_for_key c' k = Some ?nb"
    using rt ins get_block_for_key_Some [OF b] kb by (auto simp: get_block_for_key_def find_replace_block)
  moreover have "\<not> has_styling_entity c' m" if "m \<in> set (b_chars ?nb)" for m
  proof -
    have "m \<in> set (b_chars b) \<or> m = ?m"
      using that set_js_slice [of "b_chars b" 0 ?a] set_js_slice_from [of "b_chars b" ?a]
      by (auto simp: splice_block_def)
    moreover have "entity_map c' = entity_map c" using rt ins by auto
    ultimately show ?thesis using clean by (auto simp: has_styling_entity_def split: option.splits)
  qed
  ultimately show ?thesis using insert_text_wf [OF ins wf] by blast
qed


lemma apply_code_span_wf:
  "apply_code_span s c sp = Some c' \<Longrightarrow> wf_content c \<Longrightarrow> wf_content c'"
  using create_entity_wf [of c inline_code_entity]
  by (auto simp: apply_code_span_def create_entity_def split: prod.splits
           elim!: apply_entity_wf)

section \<open>The reconciler and the hooks\<close>

lemma process_change_Some:
  assumes "process_change es ins = Some es'"
  obtains c1 c2 t c3 where
    "strip_entities_from_block (current_content es) (start_key (es_selection es))
       (\<lambda>e. starts_with (ent_type e) styling_prefix) = Some c1"
    "(case ins of None \<Rightarrow> Some c1 | Some ch \<Rightarrow> insert_text c1 (es_selection es) [ch]) = Some c2"
    "block_text c2 (start_key (es_selection es)) = Some t"
    "fold_option (apply_code_span (es_selection es)) c2 (code_spans t 0) = Some c3"
    "current_content es' = c3"
  using assms
  by (auto simp: process_change_def Let_def bind_eq_Some_conv split: if_splits option.splits
           dest: arg_cong [where f = current_content])

lemma process_change_keeps_wf:
  assumes "process_change es ins = Some es'" "wf_content (current_content es)"
  shows "wf_content (current_content es')"
proof -
  obtain c1 c2 t c3 where
    c1: "strip_entities_from_block (current_content es) (start_key (es_selection es))
           (\<lambda>e. starts_with (ent_type e) styling_prefix) = Some c1"
    and c2: "(case ins of None \<Rightarrow> Some c1 | Some ch \<Rightarrow> insert_text c1 (es_selection es) [ch]) = Some c2"
    and c3: "fold_option (apply_code_span (es_selection es)) c2 (code_spans t 0) = Some c3"
    and e: "current_content es' = c3"
    using assms(1) by (rule process_change_Some)
  have "wf_content c1" using strip_entities_wf [OF c1 assms(2)] .
  then have "wf_content c2" using c2 by (cases ins) (auto intro: insert_text_wf)
  then have "wf_content c3" using c3 by (auto elim!: fold_option_invariant intro: apply_code_span_wf)
  then show ?thesis using e by simp
qed


lemma handle_before_input_step:
  assumes wf: "wf_content (current_content es)"
    and s: "is_collapsed (es_selection es)" "\<not> is_backward (es_selection es)"
    and t: "block_text (current_content es) (anchor_key (es_selection es)) = Some t"
    and a: "0 \<le> anchor_offset (es_selection es)" "nat (anchor_offset (es_selection es)) \<le> length t"
  shows "\<exists>es'. handle_before_input ch es = Some (Handled, es')
           \<and> block_text (current_content es') (anchor_key (es_selection es))
               = Some (take (nat (anchor_offset (es_selection es))) t @ [ch]
                       @ drop (nat (anchor_offset (es_selection es))) t)
           \<and> es_selection es' = collapsed_at (anchor_key (es_selection es)) (anchor_offset (es_selection es) + 1)
           \<and> last_change es' = Some ApplyEntity"
proof -
  let ?s = "es_selection es" and ?c = "current_content es"
  let ?k = "anchor_key ?s" and ?a = "anchor_offset ?s"
  let ?t2 = "take (nat ?a) t @ [ch] @ drop (nat ?a) t"
  have sk: "start_key ?s = ?k" using s by (simp add: selection_defs)
  have keys: "anchor_key ?s = ?k" "focus_key ?s = ?k" using s by (simp_all add: is_collapsed_def)
  have sel: "?s = create_selection_with_range ?k ?a ?a"
    using s by (cases ?s) (simp add: create_selection_with_range_def is_collapsed_def)
  obtain b where b: "get_block_for_key ?c ?k = Some b" and tb: "b_text b = t"
    using t by (auto simp: block_text_def)
  obtain c1 b1 where c1: "strip_entities_from_block ?c ?k (\<lambda>e. starts_with (ent_type e) styling_prefix) = Some c1"
    and b1: "get_block_for_key c1 ?k = Some b1" "b_text b1 = t"
    using strip_entities_text [OF wf b] tb by blast
  have wf1: "wf_content c1" using strip_entities_wf [OF c1 wf] .
  let ?m = "\<lparr>cm_style = [], cm_entity = None\<rparr>"
  let ?nb = "splice_block b1 ?a [ch] [?m]"
  let ?c2 = "c1\<lparr>blocks := replace_block ?nb (blocks c1), sel_after := collapsed_at ?k (?a + 1)\<rparr>"
  have c2: "insert_text c1 ?s [ch] = Some ?c2"
    using replace_text_in_block [OF b1(1), of ?a ?a "[ch]" "[]"] wf1 s(1) sel
    by (simp add: insert_text_def wf_content_def)
  have kb1: "b_key b1 = ?k" using get_block_for_key_Some [OF b1(1)] by simp
  have b2: "get_block_for_key ?c2 ?k = Some ?nb"
    using get_block_for_key_Some [OF b1(1)] kb1 by (auto simp: get_block_for_key_def find_replace_block)
  have t2: "b_text ?nb = ?t2"
    using b1(2) a by (simp add: splice_block_def js_slice_nat js_slice_from_nat)
  have wf2: "wf_content ?c2" using insert_text_wf [OF c2 wf1] .
  obtain c3 b3 where c3: "fold_option (apply_code_span ?s) ?c2 (code_spans ?t2 0) = Some c3"
    "get_block_for_key c3 ?k = Some b3" "b_text b3 = ?t2"
    using fold_code_spans [OF wf2 b2 keys s(2), of "code_spans ?t2 0"] t2 by auto
  have ne: "c3 \<noteq> ?c"
  proof
    assume "c3 = ?c"
    then have "b3 = b" using c3(2) b by simp
    then have "t = ?t2" using c3(3) tb by simp
    then have "length t = length ?t2" by (rule arg_cong)
    then show False using a by simp
  qed
  have pne: "push es c3 ApplyEntity \<noteq> es" using ne by (metis current_content_push)
  have pc: "process_change es (Some ch)
            = Some (force_selection (push es c3 ApplyEntity) (?s\<lparr>anchor_offset := ?a + 1, focus_offset := ?a + 1\<rparr>))"
    using c1 c2 b2 t2 c3(1) pne sk
    by (simp add: process_change_def block_text_def Let_def)
  have "?s\<lparr>anchor_offset := ?a + 1, focus_offset := ?a + 1\<rparr> = collapsed_at ?k (?a + 1)"
    using s by (cases ?s) (simp add: collapsed_at_def is_collapsed_def)
  moreover have "force_selection (push es c3 ApplyEntity) (collapsed_at ?k (?a + 1)) \<noteq> es"
    using ne by (metis current_content_push force_selection_simps(1))
  ultimately show ?thesis
    using pc c3 ne by (simp add: handle_before_input_def block_text_def push_def force_selection_def)
qed

section \<open>Properties of the reconciler\<close>

text \<open>
  C16: After the reconciler has run on a well-formed document with a collapsed forward
  caret, a character of the caret block carries a \<open>core.styling\<close> entity exactly when it
  lies inside a match of the inline-code pattern in the block's new text: stale styling
  entities are gone and every match is annotated over its whole length.
\<close>

lemma process_change_code_spans:
  assumes pc: "process_change es ins = Some es'" and wf: "wf_content (current_content es)"
    and s: "is_collapsed (es_selection es)" "\<not> is_backward (es_selection es)"
  shows "\<exists>b. get_block_for_key (current_content es') (start_key (es_selection es)) = Some b
           \<and> (\<forall>p < length (b_text b). has_styling_entity (current_content es') (b_chars b ! p)
                 \<longleftrightarrow> (\<exists>(i, l) \<in> set (code_spans (b_text b) 0). i \<le> p \<and> p < i + l))"
proof -
  let ?s = "es_selection es" and ?c = "current_content es"
  let ?k = "start_key ?s"
  have keys: "anchor_key ?s = ?k" "focus_key ?s = ?k"
    using s by (simp_all add: selection_defs)
  obtain c1 c2 t c3 where c1: "strip_entities_from_block ?c ?k (\<lambda>e. starts_with (ent_type e) styling_prefix) = Some c1"
    and c2: "(case ins of None \<Rightarrow> Some c1 | Some ch \<Rightarrow> insert_text c1 ?s [ch]) = Some c2"
    and t: "block_text c2 ?k = Some t"
    and c3: "fold_option (apply_code_span ?s) c2 (code_spans t 0) = Some c3"
    and e: "current_content es' = c3"
    using pc by (rule process_change_Some)
  obtain b where b: "get_block_for_key ?c ?k = Some b"
    using c1 by (cases "get_block_for_key ?c ?k") (simp_all add: strip_entities_from_block_def)
  have wf1: "wf_content c1" using strip_entities_wf [OF c1 wf] .
  obtain b1 where b1: "get_block_for_key c1 ?k = Some b1" "\<forall>m \<in> set (b_chars b1). \<not> has_styling_entity c1 m"
    using strip_styling_clean [OF wf b c1] by blast
  have "wf_content c2 \<and> (\<exists>b2. get_block_for_key c2 ?k = Some b2 \<and> (\<forall>m \<in> set (b_chars b2). \<not> has_styling_entity c2 m))"
  proof (cases ins)
    case None
    then show ?thesis using c2 wf1 b1 by auto
  next
    case (Some ch)
    then have "insert_text c1 ?s [ch] = Some c2" using c2 by simp
    then show ?thesis using insert_char_clean [OF wf1 b1(1) b1(2) keys s(2,1)] by blast
  qed
  then obtain b2 where wf2: "wf_content c2" and b2: "get_block_for_key c2 ?k = Some b2"
    and clean: "\<forall>m \<in> set (b_chars b2). \<not> has_styling_entity c2 m" by blast
  have tb: "t = b_text b2" using t b2 by (simp add: block_text_def)
  have lb: "length (b_chars b2) = length (b_text b2)"
    using get_block_wf [OF b2 wf2] by (simp add: wf_block_def)
  obtain c' b' where f: "fold_option (apply_code_span ?s) c2 (code_spans t 0) = Some c'"
    "get_block_for_key c' ?k = Some b'" "b_text b' = b_text b2" "length (b_chars b') = length (b_chars b2)"
    and h: "\<forall>p < length (b_chars b2). has_styling_entity c' (b_chars b' ! p)
              \<longleftrightarrow> has_styling_entity c2 (b_chars b2 ! p) \<or> (\<exists>(i, l) \<in> set (code_spans t 0). i \<le> p \<and> p < i + l)"
    using fold_code_spans [OF wf2 b2 keys s(2), of "code_spans t 0"] by blast
  have "c' = c3" using f(1) c3 by simp
  moreover have "\<not> has_styling_entity c2 (b_chars b2 ! p)" if "p < length (b_chars b2)" for p
    using clean that by simp
  ultimately show ?thesis
    using f h e tb lb by auto
qed

text \<open>
  C17: Typing a character at a collapsed caret inside a block is always handled by the
  plugin: the character is inserted at the caret, the caret moves one character on, and
  the step is recorded as \<open>apply-entity\<close>, whether or not any inline code was found.
\<close>

lemma handle_before_input_inserts:
  assumes wf: "wf_content (current_content es)"
    and s: "is_collapsed (es_selection es)" "\<not> is_backward (es_selection es)"
    and t: "block_text (current_content es) (anchor_key (es_selection es)) = Some t"
    and a: "0 \<le> anchor_offset (es_selection es)" "nat (anchor_offset (es_selection es)) \<le> length t"
  shows "\<exists>es'. handle_before_input ch es = Some (Handled, es')
           \<and> block_text (current_content es') (anchor_key (es_selection es))
               = Some (take (nat (anchor_offset (es_selection es))) t @ [ch]
                       @ drop (nat (anchor_offset (es_selection es))) t)
           \<and> es_selection es' = collapsed_at (anchor_key (es_selection es)) (anchor_offset (es_selection es) + 1)
           \<and> last_change es' = Some ApplyEntity"
  using wf s t a by (rule handle_before_input_step)


text \<open>
  C19: Typing over an expanded selection throws: \<open>processChange\<close> passes the selection to
  \<open>Modifier.insertText\<close>, which refuses a non-collapsed target, so the hook never reaches
  the default handling that would replace the selection.
\<close>

lemma handle_before_input_expanded:
  "\<not> is_collapsed (es_selection es) \<Longrightarrow> handle_before_input ch es = None"
  by (simp add: handle_before_input_def process_change_def Let_def insert_text_def bind_eq_None_conv
           split: option.split)

text \<open>
  C20: The scan of the global regular expression ends after at most a third of the text's
  length matches: each match consumes at least three characters.
\<close>

lemma code_spans_count: "3 * length (code_spans t j) \<le> length t"
proof (induction t j rule: code_spans.induct)
  case (1 i)
  then show ?case by simp
next
  case (2 c cs j)
  let ?body = "takeWhile (\<lambda>x. x \<noteq> backtick) cs"
  show ?case
  proof (cases "c = backtick \<and> ?body \<noteq> [] \<and> length ?body < length cs")
    case True
    let ?n = "length (code_spans (drop (Suc (length ?body)) cs) (j + length ?body + 2))"
    have "3 * ?n \<le> length cs - Suc (length ?body)" using 2(1) True by (simp add: Let_def)
    moreover have "1 \<le> length ?body" using True by (cases ?body) auto
    moreover have "length ?body < length cs" using True by simp
    ultimately have "3 * ?n + 2 \<le> length cs" by linarith
    then show ?thesis using True by (simp add: Let_def)
  next
    case False
    then show ?thesis using 2(2) by (auto simp: Let_def)
  qed
qed

text \<open>
  C36: Reconciling after a deletion never moves the caret, and it is one atomic step: the
  state is unchanged, or the new content is pushed once as \<open>apply-entity\<close> on top of the
  old one.
\<close>

lemma process_change_deletion_keeps_caret:
  assumes "process_change es None = Some es'"
  shows "es_selection es' = es_selection es
         \<and> (es' = es \<or> last_change es' = Some ApplyEntity
                \<and> undo_stack es' = (if allow_undo es then current_content es # undo_stack es else undo_stack es))"
  using assms
  by (auto simp: process_change_def Let_def bind_eq_Some_conv push_def force_selection_def split: if_splits)





section \<open>Witnesses\<close>

lemma process_change_code_spans_witness:
  "\<exists>es'. process_change (plain_state [plain_block 1 Unstyled ''say `hello''] (collapsed_at 1 10)) (Some CHR ''`'') = Some es'
     \<and> (\<exists>b. get_block_for_key (current_content es') 1 = Some b
          \<and> (\<forall>p < length (b_text b). has_styling_entity (current_content es') (b_chars b ! p)
               \<longleftrightarrow> (\<exists>(i, l) \<in> set (code_spans (b_text b) 0). i \<le> p \<and> p < i + l)))"
proof -
  obtain es' where es': "process_change (plain_state [plain_block 1 Unstyled ''say `hello''] (collapsed_at 1 10)) (Some CHR ''`'') = Some es'"
    by (cases "process_change (plain_state [plain_block 1 Unstyled ''say `hello''] (collapsed_at 1 10)) (Some CHR ''`'')") (simp_all, code_simp)
  show ?thesis
    using es' process_change_code_spans [OF es'] by (simp add: doc_simps)
qed

lemma handle_before_input_inserts_witness:
  "\<exists>es'. handle_before_input CHR ''`'' (plain_state [plain_block 1 Unstyled ''say `hello''] (collapsed_at 1 10)) = Some (Handled, es')
     \<and> block_text (current_content es') 1 = Some ''say `hello`''
     \<and> es_selection es' = collapsed_at 1 11 \<and> last_change es' = Some ApplyEntity"
  using handle_before_input_inserts [where ch = "CHR ''`''" and es = "plain_state [plain_block 1 Unstyled ''say `hello''] (collapsed_at 1 10)" and t = "''say `hello''"]
  by (simp add: doc_simps)


lemma handle_before_input_expanded_witness:
  "handle_before_input CHR ''x'' (plain_state [plain_block 1 Unstyled ''abc'']
     \<lparr>anchor_key = 1, anchor_offset = 0, focus_key = 1, focus_offset = 2, is_backward = False\<rparr>) = None"
  using handle_before_input_expanded
    [where es = "plain_state [plain_block 1 Unstyled ''abc'']
                   \<lparr>anchor_key = 1, anchor_offset = 0, focus_key = 1, focus_offset = 2, is_backward = False\<rparr>"]
  by (simp add: doc_simps)


lemma process_change_deletion_keeps_caret_witness:
  "\<exists>es'. process_change (plain_state [plain_block 1 Unstyled ''say `hello` now''] (collapsed_at 1 0)) None = Some es'
     \<and> es_selection es' = collapsed_at 1 0
     \<and> (es' = plain_state [plain_block 1 Unstyled ''say `hello` now''] (collapsed_at 1 0) \<or> last_change es' = Some ApplyEntity \<and> undo_stack es' = [current_content (plain_state [plain_block 1 Unstyled ''say `hello` now''] (collapsed_at 1 0))])"
proof -
  obtain es' where es': "process_change (plain_state [plain_block 1 Unstyled ''say `hello` now''] (collapsed_at 1 0)) None = Some es'"
    by (cases "process_change (plain_state [plain_block 1 Unstyled ''say `hello` now''] (collapsed_at 1 0)) None") (simp_all, code_simp)
  show ?thesis
    using es' process_change_deletion_keeps_caret [OF es'] by simp
qed

end
