(* ===== verification/Editor_Session.thy ===== *)
theory Editor_Session
  imports Block_Pipeline Inline_Entities
begin

text \<open>
  The editor as a whole: the \<open>Editor\<close> component of \<open>src/app/components/Editor.tsx\<close>,
  which installs the inline entity plugin, the engine of spec section 5, which runs the core
  block plugin's pipeline and then the entity reconciliation on every change, and an
  editing session as an inductive reachability relation over the host's inputs.  The
  plugin host (\<open>draft-js-plugins-editor\<close>) and draft-js's default handling of a typed
  character, a backspace and a selection change are libraries; they are modelled from spec
  sections 5 and 6.  Also the mouse handler of the link decorator (\<open>link.tsx\<close>).
\<close>

section \<open>The editor component\<close>

text \<open>
  The plugin host chains the \<open>onChange\<close> hooks of the installed plugins in order, each
  receiving the state the previous one returned; the component's own \<open>onChange\<close>
  (\<open>updateEditorState\<close>) then hands the result to the store.
\<close>

type_synonym on_change_hook = "editor_state \<Rightarrow> editor_state option"

definition run_on_change_hooks :: "on_change_hook list \<Rightarrow> editor_state \<Rightarrow> editor_state option" where
  "run_on_change_hooks hs es = fold_option (\<lambda>e h. h e) es hs"

text \<open>\<open>plugins={[plugin]}\<close>: the inline entity plugin is the only plugin installed.\<close>

definition editor_plugins :: "on_change_hook list" where
  "editor_plugins = [entity_on_change]"

definition editor_on_change :: "editor_state \<Rightarrow> editor_state option" where
  "editor_on_change es = run_on_change_hooks editor_plugins es"

section \<open>The engine of spec section 5\<close>

text \<open>
  Every change is resolved by convert, collapse and expand, then by the entity
  reconciliation; the state before the change is the plugin's \<open>getEditorState()\<close>.
\<close>

definition engine_on_change :: "editor_state \<Rightarrow> editor_state \<Rightarrow> editor_state option" where
  "engine_on_change prev es = core_block_on_change prev es \<bind> entity_on_change"

section \<open>Host inputs\<close>

datatype input = TypeChar char | Backspace | Select selection

text \<open>
  draft-js's default backspace: over an expanded selection it removes the range, at a
  collapsed caret after the first character it removes the character before the caret.
  A backspace at the start of a block merges it into the previous block, which the model
  does not cover; there the input changes nothing.
\<close>

definition host_backspace :: "editor_state \<Rightarrow> editor_state option" where
  "host_backspace es =
     (let s = es_selection es; c = current_content es in
      if \<not> is_collapsed s
      then map_option (\<lambda>c'. push es c' RemoveRange) (replace_text c s [] [])
      else if 0 < anchor_offset s
      then map_option (\<lambda>c'. push es c' BackspaceCharacter)
             (replace_text c (create_selection_with_range (anchor_key s) (anchor_offset s - 1) (anchor_offset s)) [] [])
      else Some es)"

text \<open>
  One input followed by the \<open>onChange\<close> handling \<open>oc\<close> (given the state before the input).
  A typed character goes to the plugins' \<open>handleBeforeInput\<close> first; when no plugin
  handles it, draft-js inserts it at the selection.
\<close>

fun session_step ::
  "(editor_state \<Rightarrow> editor_state \<Rightarrow> editor_state option) \<Rightarrow> editor_state \<Rightarrow> input \<Rightarrow> editor_state option" where
  "session_step oc es (TypeChar ch) =
     (case handle_before_input ch es of
        None \<Rightarrow> None
      | Some (Handled, es1) \<Rightarrow> oc es es1
      | Some (NotHandled, _) \<Rightarrow>
          do { c \<leftarrow> insert_text (current_content es) (es_selection es) [ch];
               oc es (push es c InsertCharacters) })"
| "session_step oc es Backspace = host_backspace es \<bind> oc es"
| "session_step oc es (Select s) = oc es (es\<lparr>es_selection := s\<rparr>)"

fun run_inputs ::
  "(editor_state \<Rightarrow> editor_state \<Rightarrow> editor_state option) \<Rightarrow> editor_state \<Rightarrow> input list \<Rightarrow> editor_state option" where
  "run_inputs oc es [] = Some es"
| "run_inputs oc es (i # is) = session_step oc es i \<bind> (\<lambda>es'. run_inputs oc es' is)"

text \<open>The states an editing session can reach from a starting state.\<close>

inductive reachable ::
  "(editor_state \<Rightarrow> editor_state \<Rightarrow> editor_state option) \<Rightarrow> editor_state \<Rightarrow> editor_state \<Rightarrow> bool"
  for oc :: "editor_state \<Rightarrow> editor_state \<Rightarrow> editor_state option" where
  start: "reachable oc es0 es0"
| step: "reachable oc es0 es \<Longrightarrow> session_step oc es i = Some es' \<Longrightarrow> reachable oc es0 es'"

inductive_cases reachable_stepE: "reachable oc es0 es'"

text \<open>The wiring of the repository: the block plugin is not installed, only the entity plugin.\<close>

definition src_on_change :: "editor_state \<Rightarrow> editor_state \<Rightarrow> editor_state option" where
  "src_on_change prev es = editor_on_change es"

section \<open>The link decorator\<close>

text \<open>
  \<open>onMouseDown\<close> of the link: the browser's default is prevented when the platform's
  command modifier is held (meta on macOS, control elsewhere).
\<close>

definition link_prevents_default :: "bool \<Rightarrow> bool \<Rightarrow> bool \<Rightarrow> bool" where
  "link_prevents_default is_mac meta_key ctrl_key \<longleftrightarrow> is_mac \<and> meta_key \<or> \<not> is_mac \<and> ctrl_key"


section \<open>Every step keeps documents well-formed\<close>

definition keeps_wf :: "(editor_state \<Rightarrow> editor_state \<Rightarrow> editor_state option) \<Rightarrow> bool" where
  "keeps_wf oc \<longleftrightarrow>
     (\<forall>prev es es'. oc prev es = Some es' \<longrightarrow> wf_content (current_content es) \<longrightarrow> wf_content (current_content es'))"

lemma entity_on_change_keeps_wf:
  "entity_on_change es = Some es' \<Longrightarrow> wf_content (current_content es) \<Longrightarrow> wf_content (current_content es')"
  by (auto simp: entity_on_change_def split: if_splits dest: process_change_keeps_wf)

lemma handle_before_input_keeps_wf:
  "handle_before_input ch es = Some (h, es') \<Longrightarrow> wf_content (current_content es) \<Longrightarrow>
   wf_content (current_content es')"
  by (auto simp: handle_before_input_def split: if_splits dest: process_change_keeps_wf)

lemma editor_on_change_keeps_wf:
  "editor_on_change es = Some es' \<Longrightarrow> wf_content (current_content es) \<Longrightarrow> wf_content (current_content es')"
  by (auto simp: editor_on_change_def run_on_change_hooks_def editor_plugins_def bind_eq_Some_conv
           dest: entity_on_change_keeps_wf)

lemma engine_keeps_wf: "keeps_wf engine_on_change"
  by (auto simp: keeps_wf_def engine_on_change_def bind_eq_Some_conv
           dest: core_block_on_change_keeps_wf entity_on_change_keeps_wf)

lemma src_keeps_wf: "keeps_wf src_on_change"
  by (auto simp: keeps_wf_def src_on_change_def dest: editor_on_change_keeps_wf)

lemma host_backspace_keeps_wf:
  "host_backspace es = Some es' \<Longrightarrow> wf_content (current_content es) \<Longrightarrow> wf_content (current_content es')"
  by (auto simp: host_backspace_def Let_def split: if_splits intro: replace_text_wf)

lemma session_step_keeps_wf:
  assumes "keeps_wf oc" "session_step oc es i = Some es'" "wf_content (current_content es)"
  shows "wf_content (current_content es')"
proof (cases i)
  case (TypeChar ch)
  have oc: "oc prev e = Some e' \<Longrightarrow> wf_content (current_content e) \<Longrightarrow> wf_content (current_content e')"
    for prev e e' using assms(1) by (simp add: keeps_wf_def)
  obtain h es1 where r: "handle_before_input ch es = Some (h, es1)"
    using assms(2) TypeChar by (cases "handle_before_input ch es") auto
  show ?thesis
  proof (cases h)
    case Handled
    then show ?thesis
      using assms(2,3) TypeChar r handle_before_input_keeps_wf [OF r] oc by simp
  next
    case NotHandled
    then obtain c where c: "insert_text (current_content es) (es_selection es) [ch] = Some c"
      and e: "oc es (push es c InsertCharacters) = Some es'"
      using assms(2) TypeChar r by (auto simp: bind_eq_Some_conv)
    have "wf_content (current_content (push es c InsertCharacters))"
      using insert_text_wf [OF c assms(3)] by simp
    then show ?thesis using oc [OF e] by simp
  qed
next
  case Backspace
  then show ?thesis
    using assms by (auto simp: keeps_wf_def bind_eq_Some_conv dest: host_backspace_keeps_wf)
next
  case (Select s)
  then show ?thesis using assms by (auto simp: keeps_wf_def)
qed

lemma reachable_keeps_wf:
  "reachable oc es0 es \<Longrightarrow> keeps_wf oc \<Longrightarrow> wf_content (current_content es0) \<Longrightarrow> wf_content (current_content es)"
  by (induction rule: reachable.induct) (auto intro: session_step_keeps_wf)

lemma run_inputs_reachable:
  "reachable oc es0 es \<Longrightarrow> run_inputs oc es is = Some es' \<Longrightarrow> reachable oc es0 es'"
  by (induction "is" arbitrary: es) (auto simp: bind_eq_Some_conv intro: reachable.step)


lemma src_type_char_step:
  assumes wf: "wf_content (current_content es)"
    and s: "es_selection es = collapsed_at k (int a)"
    and t: "block_text (current_content es) k = Some t" "a \<le> length t"
  shows "\<exists>es'. session_step src_on_change es (TypeChar ch) = Some es'
           \<and> wf_content (current_content es')
           \<and> block_text (current_content es') k = Some (take a t @ [ch] @ drop a t)
           \<and> es_selection es' = collapsed_at k (int (Suc a))"
proof -
  obtain es' where h: "handle_before_input ch es = Some (Handled, es')"
    and bt: "block_text (current_content es') k = Some (take a t @ [ch] @ drop a t)"
    and sel: "es_selection es' = collapsed_at k (int a + 1)"
    and lc: "last_change es' = Some ApplyEntity"
    using handle_before_input_step [OF wf, of t ch] s t by (auto simp: is_collapsed_def)
  have "src_on_change es es' = Some es'"
    using lc by (simp add: src_on_change_def editor_on_change_def run_on_change_hooks_def
                           editor_plugins_def entity_on_change_def)
  then show ?thesis
    using h bt sel handle_before_input_keeps_wf [OF h wf] by simp
qed

section \<open>Properties of the session\<close>


text \<open>
  C29: Typing never gets stuck in the repository's editor: from a well-formed document with
  the caret inside a block, every sequence of typed characters is processed, each one
  handled by the entity plugin, and it ends with the characters inserted at the caret and
  the caret after them.
\<close>

theorem typing_always_processed:
  "wf_content (current_content es) \<Longrightarrow> es_selection es = collapsed_at k (int a) \<Longrightarrow>
   block_text (current_content es) k = Some t \<Longrightarrow> a \<le> length t \<Longrightarrow>
   \<exists>es'. run_inputs src_on_change es (map TypeChar cs) = Some es'
     \<and> block_text (current_content es') k = Some (take a t @ cs @ drop a t)
     \<and> es_selection es' = collapsed_at k (int (a + length cs))"
proof (induction cs arbitrary: es t a)
  case Nil
  then show ?case by simp
next
  case (Cons ch cs)
  obtain es1 where st: "session_step src_on_change es (TypeChar ch) = Some es1"
    and wf1: "wf_content (current_content es1)"
    and bt1: "block_text (current_content es1) k = Some (take a t @ [ch] @ drop a t)"
    and sel1: "es_selection es1 = collapsed_at k (int (Suc a))"
    using src_type_char_step [OF Cons.prems] by blast
  obtain es' where r: "run_inputs src_on_change es1 (map TypeChar cs) = Some es'"
    and bt: "block_text (current_content es') k
               = Some (take (Suc a) (take a t @ [ch] @ drop a t) @ cs @ drop (Suc a) (take a t @ [ch] @ drop a t))"
    and sel: "es_selection es' = collapsed_at k (int (Suc a + length cs))"
    using Cons.IH [OF wf1 sel1 bt1] Cons.prems(4) by auto
  show ?case
    using st r bt sel Cons.prems(4) by (simp add: min_def)
qed

text \<open>
  The editor of the repository installs the entity plugin only: typing the space after
  \<open>#\<close> at the start of a block leaves it unstyled, where the engine of the specification
  makes it a header.
\<close>

lemma src_wiring_skips_block_plugin:
  "map_option (b_type \<circ> hd \<circ> blocks \<circ> current_content)
     (run_inputs src_on_change (plain_state [plain_block 1 Unstyled ''#''] (collapsed_at 1 1)) [TypeChar CHR '' '']) = Some Unstyled
   \<and> map_option (b_type \<circ> hd \<circ> blocks \<circ> current_content)
     (run_inputs engine_on_change (plain_state [plain_block 1 Unstyled ''#''] (collapsed_at 1 1)) [TypeChar CHR '' '']) = Some HeaderOne"
  by code_simp


section \<open>Witnesses\<close>


theorem typing_always_processed_witness:
  "\<exists>es'. run_inputs src_on_change (plain_state [plain_block 1 Unstyled ''ab''] (collapsed_at 1 1)) (map TypeChar ''xy'') = Some es'
     \<and> block_text (current_content es') 1 = Some ''axyb''
     \<and> es_selection es' = collapsed_at 1 3"
  using typing_always_processed [of "plain_state [plain_block 1 Unstyled ''ab''] (collapsed_at 1 1)" 1 1 "''ab''" "''xy''"]
  by (simp add: doc_simps)

end
