(* ===== verification/Spec2Isabelle.thy ===== *)
theory Spec2Isabelle
  imports Editor_Session
begin

text \<open>
  A verification development for the autoformatting engine of the notes-app editor
  (\<open>src/app\<close>): draft-js documents, the block-type state machine of
  \<open>components/editor/coreBlockPlugin\<close> (convert, collapse, expand and the plugin that
  chains them), the inline-entity reconciler of \<open>components/Editor.tsx\<close> and the shared
  helpers of \<open>utils/draftUtils.ts\<close>.  Every definition is executable; a thrown exception
  of the source is the value \<open>None\<close> of an option result.

  \<^bold>\<open>Theories and what they model.\<close>
  \<^item> \<open>Prelude\<close>: the JavaScript, lodash and Immutable.js primitives the sources call:
    \<open>slice\<close> with negative and clamped indices, \<open>List.get\<close>, \<open>skipUntil\<close>/\<open>takeUntil\<close>,
    \<open>sum\<close> over sparse counter arrays, \<open>startsWith\<close>, \<open>Array.join\<close>, and
    \<open>fold_option\<close>, a \<open>forEach\<close>/\<open>reduce\<close> whose callback may throw.
  \<^item> \<open>Draft_Model\<close>: the host container of spec section 6, modelled from the spec since
    draft-js is a library: blocks, selections, contents and editor states as records;
    \<open>Modifier.replaceText\<close>, \<open>removeRange\<close>, \<open>setBlockType\<close>, \<open>removeInlineStyle\<close>,
    \<open>applyEntity\<close>, \<open>insertText\<close>, \<open>createEntity\<close>, \<open>findEntityRanges\<close> and
    \<open>EditorState.push\<close>/\<open>forceSelection\<close>.  The invariant \<open>wf_content\<close> (distinct keys,
    one character record per character, resolvable entity references) is kept by every
    transform.
  \<^item> \<open>Draft_Utils\<close>: \<open>Range\<close>, \<open>createSelectionWith*\<close>, \<open>hasEdgeWithin\<close>,
    \<open>performUnUndoableEdits\<close>.
  \<^item> \<open>Dependent_Edits\<close>: \<open>performDependentEdits\<close> (spec 4.1) with its per-block counter
    arrays threaded through \<open>run_edits\<close>; a batch of insertions refines the declarative
    \<open>weave\<close> (C1), selection edits place the caret (C9), a missing block fails (C11), the
    document stays well-formed (C10) and undo-bypassing edits leave the history alone (C12).
  \<^item> \<open>Style_Queries\<close>: the queries of \<open>draftUtils.ts\<close> (spec 4.2): entity and style
    stripping, the decorator strategy, the selection walk and its text, the characters a
    change inserted or deleted, \<open>getContiguousStyleRange\<close> with its two scan loops as
    terminating functions, the three style-range maps as association lists in insertion
    order, and \<open>rangesOverlap\<close>.  The scan equals a \<open>takeWhile\<close> reference and returns
    the maximal run (C24), ends on every in-range index (C25), is inverted around a failing
    character (C26) and throws at a block end (C27); the overlap test is interval
    intersection for non-empty ranges (C28) but not for empty ones; style stripping
    refines a map over the range (C30); a one-block selection yields its slices (C31); the
    caret just after a styled run finds that run (C37); and the characters an insertion
    added or a backspace removed are read back from the change (C38, C39).
  \<^item> \<open>Blocks\<close> and \<open>Convert_Block_Type\<close>: the registry of \<open>blocks.ts\<close> with executable
    matchers for its three regular-expression shapes, and \<open>convertBlockType\<close> with list
    completion, the visited range, the reducer's branches and the caret adjustment (spec
    4.4 Convert): header and quote promotion (C2, C4), list exit (C3), locked blocks (C5),
    header demotion (C6), well-formedness (C7), totality (C8), and three conversions that
    go wrong (C13 to C15).
  \<^item> \<open>Block_Pipeline\<close>: \<open>collapseBlocks\<close>, \<open>collapseBlocksAtSelectionEdges\<close>, the expand
    step, and \<open>createCoreBlockPlugin\<close>'s \<open>onChange\<close> and \<open>normalizeCoreBlocks\<close> of
    \<open>coreBlockPlugin/index.ts\<close>.  Collapse then expand restores a header block (C32);
    collapse hides a header prefix outside the selection without touching the undo history
    (C33); the plugin's onChange pipeline and its forced collapse keep documents
    well-formed (C34); the forced collapse leaves the caret past the block's end (C35); and
    a worked run shows a header typed through the pipeline staying expanded while the caret
    is in it and collapsing once the caret leaves.
  \<^item> \<open>Inline_Entities\<close>: \<open>processChange\<close> of \<open>Editor.tsx\<close> with the inline-code scan of
    \<open>/`([^`]+)`/g\<close> as a recursive function, and the plugin's \<open>handleBeforeInput\<close> and
    \<open>onChange\<close> (spec 4.3).  After reconciliation the styling entities sit exactly on the
    matches (C16); typing at a caret is always handled, inserting the character and moving
    the caret (C17); both plugin hooks keep documents well-formed (C18); typing over a selection throws
    (C19); the scan ends after at most a third of the text's length matches (C20); the
    annotated span includes the backticks (C21), reconciliation is not idempotent (C22),
    a forward delete leaves a stale entity (C23), and reconciling after a deletion keeps
    the caret and pushes at most one undo step (C36).
  \<^item> \<open>Editor_Session\<close>: how the parts are composed.  \<open>run_on_change_hooks\<close> is the
    plugin editor's chaining of \<open>onChange\<close> hooks; \<open>editor_plugins\<close> and
    \<open>src_on_change\<close> are what the \<open>Editor\<close> component of \<open>Editor.tsx\<close> installs (the
    inline entity plugin only), \<open>engine_on_change\<close> is spec section 5's engine (the block
    pipeline, then entity reconciliation).  \<open>session_step\<close> resolves one host input
    (a typed character through \<open>handleBeforeInput\<close> or the host's insertion, a backspace
    with draft-js's default range removal, a selection change) and then runs the
    \<open>onChange\<close> handling; \<open>reachable\<close> is the inductive set of states a session reaches.
    By rule induction every reachable state of a session that starts well-formed is
    well-formed, under either wiring (C40); typing never gets stuck: every sequence of
    characters typed at a caret is handled by the entity plugin and lands at the caret
    (C29); a run shows that the repository's wiring never
    styles a typed header.  \<open>link_prevents_default\<close> is the condition of \<open>link.tsx\<close>'s
    \<open>onMouseDown\<close>.

  \<^bold>\<open>Modelling choices.\<close>  Documents are values, so the sources' reference tests
  (\<open>===\<close> on contents, blocks and editor states) are structural equality.  JavaScript
  numbers that can become negative (selection offsets, rebased offsets) are \<open>int\<close>; edit
  offsets are \<open>nat\<close>.  Block keys and entity keys are \<open>nat\<close>; an Immutable
  \<open>OrderedSet\<close> of styles is a list and a \<open>Map\<close> an association list.  The undo stack
  records every push while undo is allowed (draft-js's merging of consecutive insertions is
  not modelled), and entities carry no data.  No loop needs fuel: every loop of the
  sources (the regular-expression scan, the two scan loops, the block walk, the reducers)
  is a structurally recursive or measured function, so each model is total and its
  termination is a theorem of the logic.

  \<^bold>\<open>Not modelled.\<close>  The expand step's source (\<open>steps/expandBlocks\<close>) is not in the
  repository; \<open>expand_blocks\<close> follows spec 4.4 and is the only part of the block pipeline
  taken from the spec, as are the host inputs and the session of \<open>Editor_Session\<close>.  Of
  the React components only the plugin wiring of \<open>Editor\<close> and the condition of
  \<open>link.tsx\<close>'s mouse handler are modelled: the redux \<open>connect\<close> call and the
  \<open>updateEditor\<close> action store the state outside the sources, \<open>Link\<close> renders the
  \<open>href\<close> of entity data the model does not carry, and \<open>openExternalOnCmdModifier\<close>
  opens a browser window.  A backspace at the start of a block (a block merge) is not a
  modelled input.  The plugin's \<open>customStyleMap\<close> is rendering configuration.
\<close>

end
